(* ===== verification/Prelude.thy ===== *)
theory Prelude
  imports Main
begin

text \<open>
  Shared vocabulary of the development: the browser's key-value store
  (\<open>localStorage\<close>) as a map from keys to strings, the decimal digit
  conversions that the JavaScript runtime performs when it prints or reads
  numbers (template literals, \<open>JSON.stringify\<close>, \<open>Date.prototype.toISOString\<close>,
  \<open>getHours\<close>), the string helpers of \<open>String.prototype\<close> the scripts call
  (\<open>trim\<close>, \<open>split(c)[0]\<close>, \<open>slice(-k)\<close>), and the generic lemmas on them that
  the component theories share.  Characters are the 8-bit \<open>char\<close> of HOL, so a
  string of the model is a sequence of Latin-1 code units.
\<close>

named_theorems js_simps "evaluation rules of the JavaScript runtime model"

type_synonym store = "string \<rightharpoonup> string"

text \<open>The one slot of \<open>localStorage\<close> the scripts use.\<close>

abbreviation user_data :: string where
  "user_data \<equiv> ''user_data''"

text \<open>
  A \<open>fetch\<close> either rejects (a network failure) or resolves with a response
  whose body text the scripts then read with \<open>response.json()\<close>; an HTTP error
  status still resolves, so it is a \<open>Body\<close> too.
\<close>

datatype fetch_outcome = NetworkError | Body string

text \<open>
  The request URL of both scripts, \<open>`/api/token-status?token=${token}`\<close>: the
  token text is spliced in as it is, without \<open>encodeURIComponent\<close>.
\<close>

definition token_status_url :: "string \<Rightarrow> string" where
  "token_status_url t = ''/api/token-status?token='' @ t"

section \<open>Decimal digits\<close>

definition is_digit :: "char \<Rightarrow> bool" where
  "is_digit c \<longleftrightarrow> (48::nat) \<le> of_char c \<and> of_char c \<le> (57::nat)"

definition digit_val :: "char \<Rightarrow> nat" where
  "digit_val c = of_char c - 48"

definition digit_char :: "nat \<Rightarrow> char" where
  "digit_char d = char_of (48 + d)"

text \<open>\<open>show_nat n\<close> is \<open>String(n)\<close> for a non-negative integer.\<close>

fun show_nat :: "nat \<Rightarrow> string" where
  "show_nat n = (if n < 10 then [digit_char n]
                 else show_nat (n div 10) @ [digit_char (n mod 10)])"

declare show_nat.simps [simp del]

definition show_int :: "int \<Rightarrow> string" where
  "show_int i = (if i < 0 then CHR ''-'' # show_nat (nat (- i)) else show_nat (nat i))"

text \<open>\<open>read_nat\<close> reads a run of decimal digits, most significant first.\<close>

definition read_nat :: "string \<Rightarrow> nat" where
  "read_nat ds = foldl (\<lambda>acc c. 10 * acc + digit_val c) 0 ds"

section \<open>String.prototype helpers\<close>

text \<open>
  The white space that \<open>String.prototype.trim\<close> removes, restricted to 8-bit code
  units: TAB, LF, VT, FF, CR, SPACE and NO-BREAK SPACE (U+00A0).
\<close>

definition js_ws :: "char \<Rightarrow> bool" where
  "js_ws c \<longleftrightarrow> of_char c \<in> {9, 10, 11, 12, 13, 32, 160::nat}"

definition js_trim :: "string \<Rightarrow> string" where
  "js_trim s = rev (dropWhile js_ws (rev (dropWhile js_ws s)))"

text \<open>\<open>s.split(c)[0]\<close> for a one-character separator: the text before the first \<open>c\<close>.\<close>

definition split_first :: "char \<Rightarrow> string \<Rightarrow> string" where
  "split_first c s = takeWhile (\<lambda>x. x \<noteq> c) s"

text \<open>\<open>s.slice(-k)\<close>: the last \<open>k\<close> code units (all of \<open>s\<close> when it is shorter).\<close>

definition slice_last :: "nat \<Rightarrow> string \<Rightarrow> string" where
  "slice_last k s = drop (length s - k) s"

section \<open>Lemmas on digits\<close>

lemma digit_char_is_digit [simp]: "d < 10 \<Longrightarrow> is_digit (digit_char d)"
  by (simp add: is_digit_def digit_char_def)

lemma of_char_digit_char [simp]: "d < 10 \<Longrightarrow> of_char (digit_char d) = 48 + d"
  by (simp add: digit_char_def)

lemma digit_char_eq_zero_iff: "d < 10 \<Longrightarrow> digit_char d = CHR ''0'' \<longleftrightarrow> d = 0"
proof -
  assume "d < 10"
  then have "digit_char d = CHR ''0'' \<longleftrightarrow> of_char (digit_char d) = (of_char (CHR ''0'') :: nat)"
    by (simp only: of_char_eq_iff)
  with \<open>d < 10\<close> show ?thesis by simp
qed

lemma digit_val_digit_char [simp]: "d < 10 \<Longrightarrow> digit_val (digit_char d) = d"
  by (simp add: digit_val_def digit_char_def)

lemma digit_char_inj: "d < 10 \<Longrightarrow> e < 10 \<Longrightarrow> digit_char d = digit_char e \<longleftrightarrow> d = e"
  by (metis digit_val_digit_char)

lemma read_nat_snoc [simp]: "read_nat (ds @ [c]) = 10 * read_nat ds + digit_val c"
  by (simp add: read_nat_def)

lemma read_nat_Nil [simp]: "read_nat [] = 0"
  by (simp add: read_nat_def)

lemma show_nat_digits: "\<forall>c \<in> set (show_nat n). is_digit c"
  by (induction n rule: show_nat.induct) (subst show_nat.simps, auto)

lemma show_nat_nonempty [simp]: "show_nat n \<noteq> []"
  by (subst show_nat.simps) simp

lemma read_show_nat [simp]: "read_nat (show_nat n) = n"
proof (induction n rule: show_nat.induct)
  case (1 n)
  show ?case
  proof (cases "n < 10")
    case True
    then show ?thesis by (subst show_nat.simps) (simp add: read_nat_def)
  next
    case False
    with "1.IH" show ?thesis by (subst show_nat.simps) simp
  qed
qed

lemma show_nat_inj: "show_nat m = show_nat n \<longleftrightarrow> m = n"
  by (metis read_show_nat)

lemma show_nat_small: "n < 10 \<Longrightarrow> show_nat n = [digit_char n]"
  by (subst show_nat.simps) simp

lemma show_nat_length_ge: "10 \<le> n \<Longrightarrow> 2 \<le> length (show_nat n)"
  by (subst show_nat.simps) (simp add: Suc_le_eq)

lemma show_nat_two:
  "10 \<le> n \<Longrightarrow> n < 100 \<Longrightarrow> show_nat n = [digit_char (n div 10), digit_char (n mod 10)]"
  by (subst show_nat.simps) (simp add: show_nat_small)

lemma read_nat_zeros: "read_nat (replicate k (CHR ''0'') @ s) = read_nat s"
proof (induction k)
  case (Suc k)
  have "read_nat (CHR ''0'' # xs) = read_nat xs" for xs by (simp add: read_nat_def digit_val_def)
  with Suc show ?case by simp
qed simp

lemma show_nat_length: "0 < w \<Longrightarrow> n < 10 ^ w \<Longrightarrow> length (show_nat n) \<le> w"
proof (induction n arbitrary: w rule: show_nat.induct)
  case (1 n)
  show ?case
  proof (cases "n < 10")
    case True
    with "1.prems" show ?thesis by (subst show_nat.simps) simp
  next
    case False
    then have "w \<noteq> 1" using "1.prems" by (auto simp: power_one_right)
    with "1.prems" have w: "0 < w - 1" "w = Suc (w - 1)" by simp_all
    then have "n div 10 < 10 ^ (w - 1)" using "1.prems"(2) by (metis less_mult_imp_div_less mult.commute power_Suc)
    with "1.IH" [OF False w(1)] w False show ?thesis by (subst show_nat.simps) simp
  qed
qed

lemma show_int_nonneg [simp]: "0 \<le> i \<Longrightarrow> show_int i = show_nat (nat i)"
  by (simp add: show_int_def)

lemma not_is_digit_minus [simp]: "\<not> is_digit (CHR ''-'')"
  by (simp add: is_digit_def)

section \<open>Lemmas on the string helpers\<close>

lemma split_first_no_sep: "c \<notin> set s \<Longrightarrow> split_first c s = s"
  by (induction s) (auto simp: split_first_def)

lemma split_first_append_sep:
  "c \<notin> set s \<Longrightarrow> split_first c (s @ c # t) = s"
  by (induction s) (auto simp: split_first_def)

lemma slice_last_length [simp]: "length (slice_last k s) = min k (length s)"
  by (simp add: slice_last_def)

lemma js_trim_no_ws_ends:
  assumes "s = [] \<or> (\<not> js_ws (hd s) \<and> \<not> js_ws (last s))"
  shows "js_trim s = s"
proof (cases s rule: rev_cases)
  case Nil
  then show ?thesis by (simp add: js_trim_def)
next
  case (snoc ys y)
  with assms show ?thesis
    by (cases ys) (auto simp: js_trim_def)
qed

lemma js_trim_all_ws:
  assumes "\<forall>c \<in> set s. js_ws c"
  shows "js_trim s = []"
proof -
  from assms have "dropWhile js_ws s = []" by simp
  then show ?thesis unfolding js_trim_def by (simp only:) simp
qed

lemma js_trim_nonempty_has_non_ws: "js_trim s \<noteq> [] \<Longrightarrow> \<exists>c \<in> set s. \<not> js_ws c"
  using js_trim_all_ws by blast


lemma digit_char_digit_val: "is_digit c \<Longrightarrow> digit_char (digit_val c) = c"
  by (simp add: digit_char_def digit_val_def is_digit_def)

lemma digit_val_less: "is_digit c \<Longrightarrow> digit_val c < 10"
  unfolding digit_val_def is_digit_def by linarith

lemma digit_val_nonzero: "is_digit c \<Longrightarrow> c \<noteq> CHR ''0'' \<Longrightarrow> digit_val c \<noteq> 0"
  using digit_char_eq_zero_iff [OF digit_val_less] digit_char_digit_val by metis

lemma read_nat_pos:
  "\<forall>c \<in> set ds. is_digit c \<Longrightarrow> ds \<noteq> [] \<Longrightarrow> hd ds \<noteq> CHR ''0'' \<Longrightarrow> 0 < read_nat ds"
proof (induction ds rule: rev_induct)
  case (snoc x xs)
  show ?case
  proof (cases "xs = []")
    case True
    with snoc.prems have "digit_val x \<noteq> 0" by (simp add: digit_val_nonzero)
    with True show ?thesis by (simp add: read_nat_def)
  next
    case False
    with snoc show ?thesis by simp
  qed
qed simp

lemma show_read_nat:
  "\<forall>c \<in> set ds. is_digit c \<Longrightarrow> ds \<noteq> [] \<Longrightarrow> ds = ''0'' \<or> hd ds \<noteq> CHR ''0'' \<Longrightarrow>
   show_nat (read_nat ds) = ds"
proof (induction ds rule: rev_induct)
  case (snoc x xs)
  have x: "is_digit x" using snoc.prems(1) by simp
  show ?case
  proof (cases "xs = []")
    case True
    with x show ?thesis
      by (simp add: show_nat_small digit_char_digit_val digit_val_less read_nat_def)
  next
    case False
    with snoc.prems have canon: "hd xs \<noteq> CHR ''0''" "\<forall>c \<in> set xs. is_digit c" by auto
    with False have "0 < read_nat xs" by (simp add: read_nat_pos)
    then have big: "\<not> read_nat (xs @ [x]) < 10" by simp
    have div: "read_nat (xs @ [x]) div 10 = read_nat xs" "read_nat (xs @ [x]) mod 10 = digit_val x"
      using digit_val_less [OF x] by simp_all
    have "show_nat (read_nat xs) = xs" using snoc.IH canon False by simp
    with big div x show ?thesis
      by (subst show_nat.simps) (simp only: if_False digit_char_digit_val)
  qed
qed simp


lemma last_dropWhile: "dropWhile P xs \<noteq> [] \<Longrightarrow> last (dropWhile P xs) = last xs"
  by (induction xs) auto

lemma js_trim_idem: "js_trim (js_trim s) = js_trim s"
proof (rule js_trim_no_ws_ends)
  let ?d = "dropWhile js_ws (rev (dropWhile js_ws s))"
  show "js_trim s = [] \<or> \<not> js_ws (hd (js_trim s)) \<and> \<not> js_ws (last (js_trim s))"
  proof (cases "?d = []")
    case False
    then have ne: "dropWhile js_ws s \<noteq> []" by (auto dest: set_dropWhileD)
    have "hd (js_trim s) = last ?d" using False by (simp add: js_trim_def hd_rev)
    also have "\<dots> = hd (dropWhile js_ws s)" using False ne by (simp add: last_dropWhile last_rev)
    finally have "\<not> js_ws (hd (js_trim s))" using hd_dropWhile [OF ne] by simp
    moreover have "\<not> js_ws (last (js_trim s))"
      using False hd_dropWhile [OF False] by (simp add: js_trim_def last_rev)
    ultimately show ?thesis by simp
  qed (simp add: js_trim_def)
qed

section \<open>Integer division\<close>

text \<open>Floor division on \<open>int\<close>, as the calendar arithmetic of \<open>Date\<close> uses it.\<close>

lemma zdiv_eqI:
  fixes a k q :: int
  assumes "0 < k" "k * q \<le> a" "a < k * q + k"
  shows "a div k = q"
  using int_div_pos_eq [of a k q "a - k * q"] assms by simp

lemma zmod_bounds:
  fixes a k :: int
  assumes "0 < k"
  shows "a = k * (a div k) + a mod k" "0 \<le> a mod k" "a mod k < k"
  using assms by simp_all

lemma div_minus_mult:
  fixes a k c :: int
  assumes "0 < k"
  shows "(a - k * c) div k = a div k - c"
proof -
  have b: "a = k * (a div k) + a mod k" "0 \<le> a mod k" "a mod k < k" using zmod_bounds [OF assms] by simp_all
  have "k * (a div k - c) \<le> a - k * c" "a - k * c < k * (a div k - c) + k"
    unfolding right_diff_distrib using b by linarith+
  with assms show ?thesis by (intro zdiv_eqI)
qed

lemma div_pred:
  fixes y k :: int
  assumes "0 < k"
  shows "y div k = (y - 1) div k + (if k dvd y then 1 else 0)"
proof -
  have b: "y = k * (y div k) + y mod k" "0 \<le> y mod k" "y mod k < k" using zmod_bounds [OF assms] by simp_all
  show ?thesis
  proof (cases "k dvd y")
    case True
    then have "y mod k = 0" by simp
    then have "k * (y div k - 1) \<le> y - 1" "y - 1 < k * (y div k - 1) + k"
      unfolding right_diff_distrib using b by linarith+
    then have "(y - 1) div k = y div k - 1" using assms by (intro zdiv_eqI)
    with True show ?thesis by simp
  next
    case False
    then have "1 \<le> y mod k" using b by (simp add: dvd_eq_mod_eq_0)
    then have "k * (y div k) \<le> y - 1" "y - 1 < k * (y div k) + k" using b by linarith+
    then have "(y - 1) div k = y div k" using assms by (intro zdiv_eqI)
    with False show ?thesis by simp
  qed
qed

lemma div_shift:
  fixes a k c :: int
  assumes "0 < k"
  shows "(a + k * c) div k = a div k + c"
  using div_minus_mult [OF assms, of a "- c"] by simp

lemma div_range:
  fixes t a b k :: int
  assumes "0 < k" "a * k \<le> t" "t < b * k"
  shows "a \<le> t div k \<and> t div k < b"
proof -
  have q: "k * (t div k) \<le> t" "t < k * (t div k) + k" using zmod_bounds [OF assms(1), of t] by linarith+
  have "a * k < (t div k + 1) * k" using q assms(2) by (simp add: algebra_simps)
  moreover have "t div k * k \<le> t" using q(1) by (simp add: mult.commute)
  with assms(3) have "t div k * k < b * k" by linarith
  ultimately have "a * k < (t div k + 1) * k" "t div k * k < b * k" by simp_all
  then show ?thesis using assms(1) by (simp add: mult_less_cancel_right_pos)
qed

end
