(* ===== verification/Json.thy ===== *)
theory Json
  imports Prelude
begin

text \<open>
  The JavaScript values the scripts handle and the built-ins they apply to them.
  All data of the program is JSON: the session record kept in \<open>localStorage\<close>
  under \<open>user_data\<close> (written with \<open>JSON.stringify\<close>, read with \<open>JSON.parse\<close>)
  and the body of the \<open>/api/token-status\<close> response (read with
  \<open>response.json()\<close>).  This theory models
  \<^item> the values as the datatype \<open>jval\<close>, with \<open>jval option\<close> for a property read
    that may be \<open>undefined\<close>;
  \<^item> truthiness (\<open>if (x)\<close>, \<open>!x\<close>), property reads that throw a \<open>TypeError\<close>
    on \<open>null\<close>, and property assignment with the key order of ordinary JS objects
    (array-index keys first in ascending order, then the other keys in insertion
    order), so that one HOL value stands for one observable object;
  \<^item> the string conversions of template literals, \<open>textContent\<close> and \<open>value\<close>;
  \<^item> \<open>JSON.stringify\<close> (\<open>json_stringify\<close>) and \<open>JSON.parse\<close> (\<open>json_parse\<close>), the
    latter a recursive-descent parser with fuel and a proof that the fuel it is
    given is always enough.
  Numbers are integers (\<open>int\<close>): a number literal with a fraction or an exponent
  is outside the model and \<open>json_parse\<close> rejects it; the program's payloads carry
  no numbers.  A \<open>\u\<close> escape above U+00FF is outside the 8-bit character model
  and is rejected too.
\<close>

section \<open>Values\<close>

datatype jval =
    JNull
  | JBool bool
  | JNum int
  | JStr string
  | JArr "jval list"
  | JObj "(string \<times> jval) list"

datatype js_error = TypeError | SyntaxError

text \<open>\<open>ToBoolean\<close>; \<open>undefined\<close> (\<open>None\<close>) is falsy.\<close>

fun truthy :: "jval \<Rightarrow> bool" where
  "truthy JNull = False"
| "truthy (JBool b) = b"
| "truthy (JNum i) = (i \<noteq> 0)"
| "truthy (JStr s) = (s \<noteq> [])"
| "truthy (JArr vs) = True"
| "truthy (JObj ps) = True"

definition truthy_opt :: "jval option \<Rightarrow> bool" where
  "truthy_opt v = (case v of None \<Rightarrow> False | Some x \<Rightarrow> truthy x)"

text \<open>
  \<open>v.k\<close> for the property names the scripts read (\<open>token\<close>, \<open>saved_date\<close>,
  \<open>valid\<close>, \<open>full_name\<close>, \<open>vdash\<close>, \<open>has_checked_in\<close>, \<open>has_checked_out\<close>,
  \<open>checkin_time\<close>, \<open>checkout_time\<close>): none of them is inherited from a prototype,
  so a read is the own property of an object and \<open>undefined\<close> on any other
  value but \<open>null\<close>, where it throws.
\<close>

definition get_prop :: "jval \<Rightarrow> string \<Rightarrow> js_error + jval option" where
  "get_prop v k = (case v of JNull \<Rightarrow> Inl TypeError | JObj ps \<Rightarrow> Inr (map_of ps k) | _ \<Rightarrow> Inr None)"

definition field :: "jval \<Rightarrow> string \<Rightarrow> jval option" where
  "field v k = (case v of JObj ps \<Rightarrow> map_of ps k | _ \<Rightarrow> None)"

section \<open>Key order of ordinary objects\<close>

text \<open>An array index is the canonical decimal form of an integer below \<open>2^32 - 1\<close>.\<close>

definition is_index_key :: "string \<Rightarrow> bool" where
  "is_index_key k \<longleftrightarrow> k \<noteq> [] \<and> (\<forall>c \<in> set k. is_digit c) \<and> (k = ''0'' \<or> hd k \<noteq> CHR ''0'')
     \<and> read_nat k < 4294967295"

fun insert_index :: "string \<Rightarrow> jval \<Rightarrow> (string \<times> jval) list \<Rightarrow> (string \<times> jval) list" where
  "insert_index k v [] = [(k, v)]"
| "insert_index k v ((k', v') # ps) =
     (if is_index_key k' \<and> read_nat k' < read_nat k then (k', v') # insert_index k v ps
      else (k, v) # (k', v') # ps)"

text \<open>
  \<open>o[k] = v\<close> on an ordinary object: an existing property keeps its place, a new
  array index goes among the indices in ascending order, any other new key last.
\<close>

fun obj_update :: "string \<Rightarrow> jval \<Rightarrow> (string \<times> jval) list \<Rightarrow> (string \<times> jval) list" where
  "obj_update k v [] = []"
| "obj_update k v ((k', v') # ps) = (if k' = k then (k', v) else (k', v')) # obj_update k v ps"

definition obj_set :: "(string \<times> jval) list \<Rightarrow> string \<Rightarrow> jval \<Rightarrow> (string \<times> jval) list" where
  "obj_set ps k v =
     (if k \<in> fst ` set ps then obj_update k v ps
      else if is_index_key k then insert_index k v ps
      else ps @ [(k, v)])"

text \<open>
  \<open>v.k = x\<close> in sloppy mode: assignment on \<open>null\<close> throws; on a primitive it is
  silently dropped.  (The scripts assign only to objects.)
\<close>

definition set_prop :: "jval \<Rightarrow> string \<Rightarrow> jval \<Rightarrow> js_error + jval" where
  "set_prop v k x = (case v of JNull \<Rightarrow> Inl TypeError | JObj ps \<Rightarrow> Inr (JObj (obj_set ps k x)) | _ \<Rightarrow> Inr v)"

text \<open>
  The key order of an ordinary object: an array index comes before every key that
  is not one, and indices ascend.
\<close>

definition key_before :: "string \<Rightarrow> string \<Rightarrow> bool" where
  "key_before a b \<longleftrightarrow> (is_index_key b \<longrightarrow> is_index_key a \<and> read_nat a < read_nat b)"

definition keys_canon :: "string list \<Rightarrow> bool" where
  "keys_canon ks \<longleftrightarrow> distinct ks \<and> sorted_wrt key_before ks"

text \<open>Every object inside the value has its keys in the order of an ordinary object.\<close>

fun json_wf :: "jval \<Rightarrow> bool" where
  "json_wf (JArr vs) = (\<forall>v \<in> set vs. json_wf v)"
| "json_wf (JObj ps) = (keys_canon (map fst ps) \<and> (\<forall>p \<in> set ps. json_wf (snd p)))"
| "json_wf _ = True"

section \<open>String conversions\<close>

text \<open>\<open>ToString\<close>, with \<open>Array.prototype.join\<close> for arrays.\<close>

fun js_string :: "jval \<Rightarrow> string"
and js_join :: "jval list \<Rightarrow> string" where
  "js_string JNull = ''null''"
| "js_string (JBool b) = (if b then ''true'' else ''false'')"
| "js_string (JNum i) = show_int i"
| "js_string (JStr s) = s"
| "js_string (JArr vs) = js_join vs"
| "js_string (JObj ps) = ''[object Object]''"
| "js_join [] = []"
| "js_join (v # vs) =
     (if v = JNull then [] else js_string v) @ (if vs = [] then [] else CHR '','' # js_join vs)"

text \<open>A template literal \<open>`${x}`\<close> applies \<open>ToString\<close>; \<open>undefined\<close> prints as such.\<close>

definition js_string_opt :: "jval option \<Rightarrow> string" where
  "js_string_opt v = (case v of None \<Rightarrow> ''undefined'' | Some x \<Rightarrow> js_string x)"

text \<open>\<open>el.textContent = x\<close> takes a nullable \<open>DOMString\<close>: \<open>null\<close> and \<open>undefined\<close> clear it.\<close>

definition text_content :: "jval option \<Rightarrow> string" where
  "text_content v = (case v of None \<Rightarrow> [] | Some JNull \<Rightarrow> [] | Some x \<Rightarrow> js_string x)"

text \<open>\<open>input.value = x\<close> is \<open>[LegacyNullToEmptyString]\<close>: \<open>null\<close> clears it, \<open>undefined\<close> does not.\<close>

definition input_value :: "jval option \<Rightarrow> string" where
  "input_value v = (case v of Some JNull \<Rightarrow> [] | _ \<Rightarrow> js_string_opt v)"

section \<open>JSON.stringify\<close>

definition hex_digit :: "nat \<Rightarrow> char" where
  "hex_digit d = (if d < 10 then digit_char d else char_of (87 + d))"

text \<open>\<open>QuoteJSONString\<close> for one code unit.\<close>

definition quote_char :: "char \<Rightarrow> string" where
  "quote_char c =
     (if c = CHR 0x08 then [CHR 0x5C, CHR ''b'']
      else if c = CHR 0x09 then [CHR 0x5C, CHR ''t'']
      else if c = CHR 0x0A then [CHR 0x5C, CHR ''n'']
      else if c = CHR 0x0C then [CHR 0x5C, CHR ''f'']
      else if c = CHR 0x0D then [CHR 0x5C, CHR ''r'']
      else if c = CHR 0x22 then [CHR 0x5C, CHR 0x22]
      else if c = CHR 0x5C then [CHR 0x5C, CHR 0x5C]
      else if of_char c < (32::nat) then
        [CHR 0x5C, CHR ''u'', CHR ''0'', CHR ''0'', hex_digit (of_char c div 16), hex_digit (of_char c mod 16)]
      else [c])"

definition quote :: "string \<Rightarrow> string" where
  "quote s = CHR 0x22 # concat (map quote_char s) @ [CHR 0x22]"

fun commas :: "string list \<Rightarrow> string" where
  "commas [] = []"
| "commas [x] = x"
| "commas (x # xs) = x @ CHR '','' # commas xs"

fun json_stringify :: "jval \<Rightarrow> string"
and stringify_elems :: "jval list \<Rightarrow> string list"
and stringify_members :: "(string \<times> jval) list \<Rightarrow> string list" where
  "json_stringify JNull = ''null''"
| "json_stringify (JBool b) = (if b then ''true'' else ''false'')"
| "json_stringify (JNum i) = show_int i"
| "json_stringify (JStr s) = quote s"
| "json_stringify (JArr vs) = CHR ''['' # commas (stringify_elems vs) @ '']''"
| "json_stringify (JObj ps) = CHR ''{'' # commas (stringify_members ps) @ ''}''"
| "stringify_elems [] = []"
| "stringify_elems (v # vs) = json_stringify v # stringify_elems vs"
| "stringify_members [] = []"
| "stringify_members ((k, v) # ps) = (quote k @ CHR '':'' # json_stringify v) # stringify_members ps"

section \<open>JSON.parse\<close>

definition json_ws :: "char \<Rightarrow> bool" where
  "json_ws c \<longleftrightarrow> c = CHR 0x09 \<or> c = CHR 0x0A \<or> c = CHR 0x0D \<or> c = CHR 0x20"

definition skip_ws :: "string \<Rightarrow> string" where
  "skip_ws s = dropWhile json_ws s"

definition hex_val :: "char \<Rightarrow> nat option" where
  "hex_val c =
     (if is_digit c then Some (digit_val c)
      else if (97::nat) \<le> of_char c \<and> of_char c \<le> (102::nat) then Some (of_char c - 87)
      else if (65::nat) \<le> of_char c \<and> of_char c \<le> (70::nat) then Some (of_char c - 55)
      else None)"

text \<open>The code unit of \<open>\uXXXX\<close>, when it is an 8-bit one.\<close>

definition hex4 :: "char \<Rightarrow> char \<Rightarrow> char \<Rightarrow> char \<Rightarrow> char option" where
  "hex4 a b c d =
     (case (hex_val a, hex_val b, hex_val c, hex_val d) of
        (Some x, Some y, Some z, Some w) \<Rightarrow>
          (let n = ((x * 16 + y) * 16 + z) * 16 + w in if n < 256 then Some (char_of n) else None)
      | _ \<Rightarrow> None)"

definition unescape :: "char \<Rightarrow> char option" where
  "unescape e =
     (if e = CHR 0x22 then Some (CHR 0x22)
      else if e = CHR 0x5C then Some (CHR 0x5C)
      else if e = CHR ''/'' then Some (CHR ''/'')
      else if e = CHR ''b'' then Some (CHR 0x08)
      else if e = CHR ''f'' then Some (CHR 0x0C)
      else if e = CHR ''n'' then Some (CHR 0x0A)
      else if e = CHR ''r'' then Some (CHR 0x0D)
      else if e = CHR ''t'' then Some (CHR 0x09)
      else None)"

text \<open>The body of a string literal, after its opening quote: the string and the rest.\<close>

fun pstr :: "string \<Rightarrow> (string \<times> string) option" where
  "pstr [] = None"
| "pstr (c # cs) =
     (if c = CHR 0x22 then Some ([], cs)
      else if c = CHR 0x5C then
        (case cs of
           [] \<Rightarrow> None
         | e # cs' \<Rightarrow>
             (if e = CHR ''u'' then
                (case cs' of
                   a # b # x # y # r \<Rightarrow>
                     (case hex4 a b x y of
                        None \<Rightarrow> None
                      | Some ch \<Rightarrow> map_option (apfst (Cons ch)) (pstr r))
                 | _ \<Rightarrow> None)
              else
                (case unescape e of
                   None \<Rightarrow> None
                 | Some ch \<Rightarrow> map_option (apfst (Cons ch)) (pstr cs'))))
      else if of_char c < (32::nat) then None
      else map_option (apfst (Cons c)) (pstr cs))"

text \<open>The integer part of a number: \<open>0\<close> or a digit run without a leading zero.\<close>

definition pdigits :: "string \<Rightarrow> (nat \<times> string) option" where
  "pdigits s =
     (case s of
        [] \<Rightarrow> None
      | c # r \<Rightarrow> (if c = CHR ''0'' then Some (0, r)
                 else if is_digit c then Some (read_nat (takeWhile is_digit s), dropWhile is_digit s)
                 else None))"

definition frac_or_exp :: "string \<Rightarrow> bool" where
  "frac_or_exp r = (case r of [] \<Rightarrow> False | c # _ \<Rightarrow> c = CHR ''.'' \<or> c = CHR ''e'' \<or> c = CHR ''E'')"

definition pnum :: "string \<Rightarrow> (int \<times> string) option" where
  "pnum s =
     (case s of
        c # r \<Rightarrow>
          (if c = CHR ''-'' then
             (case pdigits r of
                None \<Rightarrow> None
              | Some (n, r') \<Rightarrow> if frac_or_exp r' then None else Some (- int n, r'))
           else
             (case pdigits s of
                None \<Rightarrow> None
              | Some (n, r') \<Rightarrow> if frac_or_exp r' then None else Some (int n, r')))
      | [] \<Rightarrow> None)"

datatype perr = PSyntax | PFuel

type_synonym 'a pres = "perr + 'a \<times> string"

text \<open>
  The recursive descent.  Each function spends one unit of fuel per call; \<open>PFuel\<close>
  is running out, \<open>PSyntax\<close> a syntax error.  \<open>parr\<close> and \<open>pobj\<close> start after
  the opening bracket, \<open>parr_rest\<close> and \<open>pobj_rest\<close> after an element,
  \<open>pmember\<close> after the opening quote of a key.  Members are added with
  \<open>obj_set\<close>, so a repeated key overwrites the earlier value in place, as
  \<open>CreateDataProperty\<close> does.
\<close>

function (sequential) pval :: "nat \<Rightarrow> string \<Rightarrow> jval pres"
and parr :: "nat \<Rightarrow> string \<Rightarrow> jval list pres"
and parr_rest :: "nat \<Rightarrow> jval list \<Rightarrow> string \<Rightarrow> jval list pres"
and pobj :: "nat \<Rightarrow> string \<Rightarrow> (string \<times> jval) list pres"
and pmember :: "nat \<Rightarrow> (string \<times> jval) list \<Rightarrow> string \<Rightarrow> (string \<times> jval) list pres"
and pobj_rest :: "nat \<Rightarrow> (string \<times> jval) list \<Rightarrow> string \<Rightarrow> (string \<times> jval) list pres" where
  "pval 0 s = Inl PFuel"
| "pval (Suc n) s =
     (case skip_ws s of
        [] \<Rightarrow> Inl PSyntax
      | c # r \<Rightarrow>
         (if c = CHR ''['' then
            (case parr n r of Inl e \<Rightarrow> Inl e | Inr (vs, r') \<Rightarrow> Inr (JArr vs, r'))
          else if c = CHR ''{'' then
            (case pobj n r of Inl e \<Rightarrow> Inl e | Inr (ps, r') \<Rightarrow> Inr (JObj ps, r'))
          else if c = CHR 0x22 then
            (case pstr r of None \<Rightarrow> Inl PSyntax | Some (t, r') \<Rightarrow> Inr (JStr t, r'))
          else if c = CHR ''-'' \<or> is_digit c then
            (case pnum (c # r) of None \<Rightarrow> Inl PSyntax | Some (i, r') \<Rightarrow> Inr (JNum i, r'))
          else if take 4 (c # r) = ''null'' then Inr (JNull, drop 3 r)
          else if take 4 (c # r) = ''true'' then Inr (JBool True, drop 3 r)
          else if take 5 (c # r) = ''false'' then Inr (JBool False, drop 4 r)
          else Inl PSyntax))"
| "parr 0 s = Inl PFuel"
| "parr (Suc n) s =
     (case skip_ws s of
        [] \<Rightarrow> Inl PSyntax
      | c # r \<Rightarrow>
         (if c = CHR '']'' then Inr ([], r)
          else (case pval n s of Inl e \<Rightarrow> Inl e | Inr (v, r') \<Rightarrow> parr_rest n [v] r')))"
| "parr_rest 0 acc s = Inl PFuel"
| "parr_rest (Suc n) acc s =
     (case skip_ws s of
        [] \<Rightarrow> Inl PSyntax
      | c # r \<Rightarrow>
         (if c = CHR '','' then
            (case pval n r of Inl e \<Rightarrow> Inl e | Inr (v, r') \<Rightarrow> parr_rest n (acc @ [v]) r')
          else if c = CHR '']'' then Inr (acc, r)
          else Inl PSyntax))"
| "pobj 0 s = Inl PFuel"
| "pobj (Suc n) s =
     (case skip_ws s of
        [] \<Rightarrow> Inl PSyntax
      | c # r \<Rightarrow>
         (if c = CHR ''}'' then Inr ([], r)
          else if c = CHR 0x22 then pmember n [] r
          else Inl PSyntax))"
| "pmember 0 acc s = Inl PFuel"
| "pmember (Suc n) acc s =
     (case pstr s of
        None \<Rightarrow> Inl PSyntax
      | Some (k, r) \<Rightarrow>
         (case skip_ws r of
            [] \<Rightarrow> Inl PSyntax
          | c # r' \<Rightarrow>
             (if c = CHR '':'' then
                (case pval n r' of
                   Inl e \<Rightarrow> Inl e
                 | Inr (v, r'') \<Rightarrow> pobj_rest n (obj_set acc k v) r'')
              else Inl PSyntax)))"
| "pobj_rest 0 acc s = Inl PFuel"
| "pobj_rest (Suc n) acc s =
     (case skip_ws s of
        [] \<Rightarrow> Inl PSyntax
      | c # r \<Rightarrow>
         (if c = CHR '','' then
            (case skip_ws r of
               [] \<Rightarrow> Inl PSyntax
             | d # r' \<Rightarrow> (if d = CHR 0x22 then pmember n acc r' else Inl PSyntax))
          else if c = CHR ''}'' then Inr (acc, r)
          else Inl PSyntax))"
  by pat_completeness auto
termination
  by (relation "measure (case_sum (case_sum fst (case_sum fst fst)) (case_sum fst (case_sum fst fst)))") auto

text \<open>
  \<open>JSON.parse(s)\<close>: one value, then only white space.  \<open>None\<close> is the
  \<open>SyntaxError\<close> it throws.  The fuel \<open>2 * length s + 2\<close> is enough for every
  input (lemma \<open>pval_enough_fuel\<close>), so \<open>PFuel\<close> never reaches this point.
\<close>

definition json_parse :: "string \<Rightarrow> jval option" where
  "json_parse s =
     (case pval (2 * length s + 2) s of
        Inr (v, r) \<Rightarrow> (if skip_ws r = [] then Some v else None)
      | Inl _ \<Rightarrow> None)"

section \<open>Basic lemmas\<close>

lemma truthy_opt_simps [simp]: "truthy_opt None = False" "truthy_opt (Some v) = truthy v"
  by (simp_all add: truthy_opt_def)

lemma truthy_optE: "truthy_opt v \<Longrightarrow> (\<And>x. v = Some x \<Longrightarrow> truthy x \<Longrightarrow> P) \<Longrightarrow> P"
  by (cases v) auto

lemma get_prop_nonnull [simp]: "v \<noteq> JNull \<Longrightarrow> get_prop v k = Inr (field v k)"
  by (cases v) (simp_all add: get_prop_def field_def)

lemma get_prop_null [simp]: "get_prop JNull k = Inl TypeError"
  by (simp add: get_prop_def)

lemma field_JObj [simp]: "field (JObj ps) k = map_of ps k"
  by (simp add: field_def)

lemma set_prop_JObj [simp]: "set_prop (JObj ps) k x = Inr (JObj (obj_set ps k x))"
  by (simp add: set_prop_def)

lemma truthy_field_JObj: "truthy_opt (field v k) \<Longrightarrow> \<exists>ps. v = JObj ps"
  by (cases v) (auto simp: field_def)

lemma json_parse_Nil [simp]: "json_parse [] = None"
  by (simp add: json_parse_def skip_ws_def)

lemma json_parse_nonempty: "json_parse s = Some v \<Longrightarrow> s \<noteq> []"
  by auto

lemma map_of_insert_index:
  "k \<notin> fst ` set ps \<Longrightarrow> map_of (insert_index k v ps) = (map_of ps)(k \<mapsto> v)"
  by (induction k v ps rule: insert_index.induct) (auto simp: fun_upd_twist)

lemma map_of_obj_update:
  "map_of (obj_update k v ps) x = (if x = k \<and> map_of ps k \<noteq> None then Some v else map_of ps x)"
  by (induction k v ps rule: obj_update.induct) auto

lemma map_add_single_new: "m k = None \<Longrightarrow> [k \<mapsto> v] ++ m = m(k \<mapsto> v)"
  by (auto simp: fun_eq_iff map_add_def split: option.split)

lemma map_of_obj_set [simp]: "map_of (obj_set ps k v) = (map_of ps)(k \<mapsto> v)"
proof (cases "map_of ps k = None")
  case True
  then have "k \<notin> fst ` set ps" by (simp add: map_of_eq_None_iff)
  with True show ?thesis
    by (simp add: obj_set_def map_of_insert_index map_add_single_new)
next
  case False
  then have "k \<in> fst ` set ps" by (simp add: map_of_eq_None_iff)
  with False show ?thesis
    by (simp add: obj_set_def fun_eq_iff map_of_obj_update)
qed

lemma map_fst_obj_update [simp]: "map fst (obj_update k v ps) = map fst ps"
  by (induction k v ps rule: obj_update.induct) auto

lemma set_obj_update: "set (obj_update k v ps) \<subseteq> set ps \<union> {(k, v)}"
  by (induction k v ps rule: obj_update.induct) auto

lemma set_insert_index: "set (insert_index k v ps) = insert (k, v) (set ps)"
  by (induction k v ps rule: insert_index.induct) auto


lemma index_key_inj:
  assumes "is_index_key a" "is_index_key b" "read_nat a = read_nat b"
  shows "a = b"
proof -
  have "show_nat (read_nat a) = a" using assms(1) unfolding is_index_key_def
    by (intro show_read_nat) blast+
  moreover have "show_nat (read_nat b) = b" using assms(2) unfolding is_index_key_def
    by (intro show_read_nat) blast+
  ultimately
  show ?thesis using assms(3) by metis
qed

lemma insert_index_canon:
  assumes "is_index_key k" "k \<notin> fst ` set ps" "keys_canon (map fst ps)"
  shows "keys_canon (map fst (insert_index k v ps))"
  using assms
proof (induction k v ps rule: insert_index.induct)
  case (1 k v)
  then show ?case by (simp add: keys_canon_def)
next
  case (2 k v k' v' ps)
  have keys: "set (map fst (insert_index k v ps)) = insert k (fst ` set ps)"
    using set_insert_index [of k v ps] by auto
  show ?case
  proof (cases "is_index_key k' \<and> read_nat k' < read_nat k")
    case True
    with 2 have "keys_canon (map fst (insert_index k v ps))"
      by (simp add: keys_canon_def)
    with True 2(3,4) keys show ?thesis
      by (auto simp: keys_canon_def key_before_def)
  next
    case False
    have "key_before k x" if x: "x \<in> set (k' # map fst ps)" for x
    proof (cases "is_index_key x")
      case True
      have "read_nat k \<le> read_nat k'" "is_index_key k'"
        using False x True 2(4) by (auto simp: keys_canon_def key_before_def)
      moreover have "k \<noteq> k'" using 2(3) by simp
      ultimately have "read_nat k < read_nat k'"
        using index_key_inj [OF 2(2), of k'] by linarith
      moreover have "x = k' \<or> read_nat k' < read_nat x"
        using x True 2(4) by (auto simp: keys_canon_def key_before_def)
      ultimately show ?thesis using 2(2) True by (auto simp: key_before_def)
    qed (simp add: key_before_def)
    with False 2(3,4) show ?thesis by (auto simp: keys_canon_def)
  qed
qed

lemma obj_set_canon:
  assumes "keys_canon (map fst ps)"
  shows "keys_canon (map fst (obj_set ps k v))"
proof -
  have "keys_canon (map fst ps @ [k])" if "k \<notin> fst ` set ps" "\<not> is_index_key k"
    using assms that by (auto simp: keys_canon_def sorted_wrt_append key_before_def)
  then show ?thesis using assms insert_index_canon [of k ps v]
    by (auto simp: obj_set_def)
qed

lemma obj_set_wf:
  assumes "json_wf (JObj ps)" "json_wf v"
  shows "json_wf (JObj (obj_set ps k v))"
proof -
  have "set (obj_set ps k v) \<subseteq> set ps \<union> {(k, v)}"
    using set_obj_update [of k v ps] set_insert_index [of k v ps] by (auto simp: obj_set_def)
  with assms show ?thesis by (auto simp: obj_set_canon)
qed

end
