(* ===== verification/Json_Roundtrip.thy ===== *)
theory Json_Roundtrip
  imports Json
begin

text \<open>
  \<open>JSON.parse\<close> inverts \<open>JSON.stringify\<close> on the values the scripts
  store and read back (\<open>json_wf\<close>: finite integers, objects in canonical
  key order without duplicate keys).  The proof has three parts:
  \<^item> with enough fuel, each parser function reads back the text printed for a
    value, followed by any text that may follow a value (\<open>pval_roundtrip\<close>);
  \<^item> more fuel never changes a result other than \<open>PFuel\<close>
    (\<open>fuel_mono\<close>), and every successful call consumes input
    (\<open>consumes\<close>);
  \<^item> fuel \<open>2 * length s + 1\<close> is enough for \<open>pval\<close> on every input
    (\<open>enough_fuel\<close>), so \<open>json_parse\<close>, which gives
    \<open>2 * length s + 2\<close>, never runs out and \<open>json_parse_stringify\<close> follows.
\<close>

section \<open>Auxiliary notions\<close>

text \<open>\<open>follow_ok r\<close>: \<open>r\<close> may follow a value inside a JSON text.
  \<open>pval_rt v\<close>: enough fuel reads \<open>v\<close> back.  \<open>fle x y\<close>: \<open>x\<close> is \<open>y\<close> or ran out of fuel.
  \<open>res_ok P x\<close>: a result of \<open>x\<close>, if any, satisfies \<open>P\<close>.\<close>

definition follow_ok :: "string \<Rightarrow> bool" where
  "follow_ok r \<longleftrightarrow> r = [] \<or> hd r = CHR '','' \<or> hd r = CHR '']'' \<or> hd r = CHR ''}''"

definition member_text :: "string \<times> jval \<Rightarrow> string" where
  "member_text p = quote (fst p) @ CHR '':'' # json_stringify (snd p)"

abbreviation elems_text :: "jval list \<Rightarrow> string" where
  "elems_text vs \<equiv> concat (map (\<lambda>y. CHR '','' # y) (map json_stringify vs))"

abbreviation members_text :: "(string \<times> jval) list \<Rightarrow> string" where
  "members_text ps \<equiv> concat (map (\<lambda>y. CHR '','' # y) (map member_text ps))"

definition pval_rt :: "jval \<Rightarrow> bool" where
  "pval_rt v \<longleftrightarrow> (\<forall>r. follow_ok r \<longrightarrow> (\<exists>n. \<forall>m\<ge>n. pval m (json_stringify v @ r) = Inr (v, r)))"

definition fle :: "'a pres \<Rightarrow> 'a pres \<Rightarrow> bool" where
  "fle x y \<longleftrightarrow> x = Inl PFuel \<or> x = y"

definition res_ok :: "('a \<Rightarrow> bool) \<Rightarrow> 'a pres \<Rightarrow> bool" where
  "res_ok P x \<longleftrightarrow> (case x of Inl _ \<Rightarrow> True | Inr (a, _) \<Rightarrow> P a)"

section \<open>Printing and reading a string literal\<close>

lemma hex_val_hex_digit [simp]: "d < 16 \<Longrightarrow> hex_val (hex_digit d) = Some d"
proof -
  assume d: "d < 16"
  show ?thesis
  proof (cases "d < 10")
    case True
    then show ?thesis by (simp add: hex_val_def hex_digit_def)
  next
    case False
    with d have "(97::nat) \<le> 87 + d \<and> 87 + d \<le> (102::nat)" by simp
    with False d show ?thesis
      by (simp add: hex_val_def hex_digit_def is_digit_def)
  qed
qed

lemma hex4_control:
  assumes "of_char c < (32::nat)"
  shows "hex4 (CHR ''0'') (CHR ''0'') (hex_digit (of_char c div 16)) (hex_digit (of_char c mod 16)) = Some c"
proof -
  have "of_char c div 16 < (16::nat)" "of_char c mod 16 < (16::nat)" using assms by simp_all
  moreover have "hex_val (CHR ''0'') = Some 0" by (simp add: hex_val_def is_digit_def digit_val_def)
  moreover have "of_char c div 16 * 16 + of_char c mod 16 = (of_char c :: nat)" by simp
  ultimately show ?thesis using assms by (simp add: hex4_def)
qed

lemma pstr_quote_char: "pstr (quote_char c @ x) = map_option (apfst (Cons c)) (pstr x)"
proof -
  consider "c = CHR 0x08" | "c = CHR 0x09" | "c = CHR 0x0A" | "c = CHR 0x0C" | "c = CHR 0x0D"
    | "c = CHR 0x22" | "c = CHR 0x5C"
    | "c \<notin> {CHR 0x08, CHR 0x09, CHR 0x0A, CHR 0x0C, CHR 0x0D, CHR 0x22, CHR 0x5C}" "of_char c < (32::nat)"
    | "c \<notin> {CHR 0x08, CHR 0x09, CHR 0x0A, CHR 0x0C, CHR 0x0D, CHR 0x22, CHR 0x5C}" "\<not> of_char c < (32::nat)"
    by blast
  then show ?thesis
  proof cases
    case 8
    then show ?thesis by (simp add: quote_char_def hex4_control)
  next
    case 9
    then show ?thesis by (simp add: quote_char_def)
  qed (simp_all add: quote_char_def unescape_def)
qed

lemma pstr_quote: "pstr (concat (map quote_char s) @ CHR 0x22 # rest) = Some (s, rest)"
  by (induction s) (simp_all add: pstr_quote_char)

section \<open>Printing and reading a number\<close>

lemma follow_ok_simps [simp]:
  "follow_ok []" "follow_ok (CHR '','' # r)" "follow_ok (CHR '']'' # r)" "follow_ok (CHR ''}'' # r)"
  by (simp_all add: follow_ok_def)

lemma follow_ok_not_digit: "follow_ok r \<Longrightarrow> takeWhile is_digit r = [] \<and> \<not> frac_or_exp r"
  by (cases r) (auto simp: follow_ok_def is_digit_def frac_or_exp_def)

lemma show_nat_hd_nonzero: "0 < n \<Longrightarrow> hd (show_nat n) \<noteq> CHR ''0''"
proof (induction n rule: show_nat.induct)
  case (1 n)
  show ?case
  proof (cases "n < 10")
    case True
    with "1.prems" show ?thesis
      by (subst show_nat.simps) (simp add: digit_char_eq_zero_iff)
  next
    case False
    with "1.IH" have "hd (show_nat (n div 10)) \<noteq> CHR ''0''" by simp
    with False show ?thesis by (subst show_nat.simps) simp
  qed
qed

lemma show_nat_zero: "show_nat 0 = ''0''"
  by (subst show_nat.simps) (simp add: digit_char_eq_zero_iff)

lemma takeWhile_digits_append:
  "\<forall>c \<in> set xs. is_digit c \<Longrightarrow> takeWhile is_digit (xs @ r) = xs @ takeWhile is_digit r"
  by (induction xs) auto

lemma dropWhile_digits_append:
  "\<forall>c \<in> set xs. is_digit c \<Longrightarrow> dropWhile is_digit (xs @ r) = dropWhile is_digit r"
  by (induction xs) auto

lemma pdigits_show_nat:
  assumes "follow_ok r"
  shows "pdigits (show_nat n @ r) = Some (n, r)"
proof (cases "n = 0")
  case True
  then show ?thesis by (simp add: pdigits_def show_nat_zero)
next
  case False
  obtain c cs where sc: "show_nat n = c # cs" by (cases "show_nat n") auto
  have digits: "\<forall>c \<in> set (c # cs). is_digit c" using show_nat_digits [of n] sc by simp
  have nz: "c \<noteq> CHR ''0''" using False sc show_nat_hd_nonzero [of n] by simp
  have tw: "takeWhile is_digit r = []" using assms follow_ok_not_digit by blast
  then have dw: "dropWhile is_digit r = r" by (cases r) (auto split: if_splits)
  have "takeWhile is_digit (c # cs @ r) = c # cs"
    using takeWhile_digits_append [OF digits, of r] tw by simp
  moreover have "dropWhile is_digit (c # cs @ r) = r"
    using dropWhile_digits_append [OF digits, of r] dw by simp
  moreover have "read_nat (c # cs) = n" using read_show_nat [of n] sc by simp
  ultimately have "pdigits (c # cs @ r) = Some (n, r)"
    using digits nz by (simp add: pdigits_def)
  then show ?thesis using sc by simp
qed

lemma pnum_show_int:
  assumes "follow_ok r"
  shows "pnum (show_int i @ r) = Some (i, r)"
proof (cases "i < 0")
  case True
  then show ?thesis
    using pdigits_show_nat [OF assms, of "nat (- i)"] follow_ok_not_digit [OF assms]
    by (simp add: show_int_def pnum_def)
next
  case False
  obtain c cs where sc: "show_nat (nat i) = c # cs" by (cases "show_nat (nat i)") auto
  have "is_digit c" using show_nat_digits [of "nat i"] sc by simp
  then have "c \<noteq> CHR ''-''" by auto
  with False sc show ?thesis
    using pdigits_show_nat [OF assms, of "nat i"] follow_ok_not_digit [OF assms]
    by (simp add: show_int_def pnum_def)
qed

section \<open>Shape of the printed text\<close>

lemma stringify_elems_map: "stringify_elems vs = map json_stringify vs"
  by (induction vs) simp_all

lemma stringify_members_map: "stringify_members ps = map member_text ps"
  by (induction ps) (auto simp: member_text_def)

lemma commas_Cons: "commas (x # xs) = x @ concat (map (\<lambda>y. CHR '','' # y) xs)"
  by (induction xs arbitrary: x) simp_all

lemma stringify_start:
  "\<exists>c cs. json_stringify v = c # cs \<and> \<not> json_ws c \<and> c \<noteq> CHR '']'' \<and> c \<noteq> CHR ''}''"
proof (cases v)
  case (JNum i)
  obtain d ds where "show_nat (nat \<bar>i\<bar>) = d # ds" by (cases "show_nat (nat \<bar>i\<bar>)") auto
  moreover have "is_digit d" using show_nat_digits [of "nat \<bar>i\<bar>"] calculation by simp
  ultimately show ?thesis using JNum
    by (auto simp: show_int_def json_ws_def is_digit_def)
qed (auto simp: json_ws_def quote_def)

lemma skip_ws_start: "\<not> json_ws c \<Longrightarrow> skip_ws (c # s) = c # s"
  by (simp add: skip_ws_def)

lemma skip_ws_stringify: "skip_ws (json_stringify v @ r) = json_stringify v @ r"
  using stringify_start [of v] by (auto simp: skip_ws_start)

lemma skip_ws_simps [simp]:
  "skip_ws (CHR '','' # s) = CHR '','' # s" "skip_ws (CHR '']'' # s) = CHR '']'' # s"
  "skip_ws (CHR ''}'' # s) = CHR ''}'' # s" "skip_ws (CHR '':'' # s) = CHR '':'' # s"
  "skip_ws (CHR 0x22 # s) = CHR 0x22 # s"
  by (simp_all add: skip_ws_def json_ws_def)

section \<open>Objects rebuilt member by member\<close>

lemma insert_index_last:
  assumes "\<forall>k' \<in> set (map fst acc). is_index_key k' \<and> read_nat k' < read_nat k"
  shows "insert_index k v acc = acc @ [(k, v)]"
  using assms by (induction k v acc rule: insert_index.induct) auto

lemma obj_set_append_canon:
  assumes "keys_canon (map fst (acc @ [(k, v)]))"
  shows "obj_set acc k v = acc @ [(k, v)]"
proof -
  from assms have new: "k \<notin> fst ` set acc" and ord: "\<forall>k' \<in> set (map fst acc). key_before k' k"
    by (auto simp: keys_canon_def sorted_wrt_append)
  show ?thesis
  proof (cases "is_index_key k")
    case True
    with ord have "\<forall>k' \<in> set (map fst acc). is_index_key k' \<and> read_nat k' < read_nat k"
      by (simp add: key_before_def)
    with True new show ?thesis by (simp add: obj_set_def insert_index_last)
  next
    case False
    with new show ?thesis by (simp add: obj_set_def)
  qed
qed

lemma skip_ws_Cons: "skip_ws (c # s) = (if json_ws c then skip_ws s else c # s)"
  by (simp add: skip_ws_def)

lemma follow_ok_commas: "follow_ok (concat (map (\<lambda>y. CHR '','' # y) ys) @ c # r) = (ys \<noteq> [] \<or> follow_ok (c # r))"
  by (cases ys) (simp_all add: follow_ok_def)

lemma all_ge_Suc: "(\<forall>m\<ge>Suc n. P m) \<longleftrightarrow> (\<forall>m\<ge>n. P (Suc m))"
  by (metis Suc_le_D Suc_le_mono)

lemma parr_rest_rt:
  assumes "\<forall>x \<in> set vs. pval_rt x"
  shows "\<exists>n. \<forall>m\<ge>n. parr_rest m acc (elems_text vs @ CHR '']'' # r) = Inr (acc @ vs, r)"
  using assms
proof (induction vs arbitrary: acc)
  case Nil
  have "\<forall>m\<ge>Suc 0. parr_rest m acc (CHR '']'' # r) = Inr (acc, r)"
    by (simp add: all_ge_Suc)
  then show ?case by auto
next
  case (Cons x xs)
  let ?X = "elems_text xs @ CHR '']'' # r"
  have "follow_ok ?X" by (cases xs) (simp_all add: follow_ok_def)
  with Cons.prems obtain n1 where n1: "\<forall>m\<ge>n1. pval m (json_stringify x @ ?X) = Inr (x, ?X)"
    by (auto simp: pval_rt_def)
  from Cons.IH [of "acc @ [x]"] Cons.prems obtain n2 where
    n2: "\<forall>m\<ge>n2. parr_rest m (acc @ [x]) ?X = Inr (acc @ [x] @ xs, r)" by auto
  have "\<forall>m\<ge>Suc (max n1 n2). parr_rest m acc (elems_text (x # xs) @ CHR '']'' # r) = Inr (acc @ x # xs, r)"
  proof (intro allI impI)
    fix m assume "Suc (max n1 n2) \<le> m"
    then obtain m' where m: "m = Suc m'" "n1 \<le> m'" "n2 \<le> m'" by (cases m) auto
    then show "parr_rest m acc (elems_text (x # xs) @ CHR '']'' # r) = Inr (acc @ x # xs, r)"
      using n1 n2 by simp
  qed
  then show ?case by blast
qed

lemma pmember_rt:
  assumes "pval_rt v" "follow_ok X" "obj_set acc k v = acc @ [(k, v)]"
    and "\<exists>n. \<forall>m\<ge>n. pobj_rest m (acc @ [(k, v)]) X = R"
  shows "\<exists>n. \<forall>m\<ge>n. pmember m acc (concat (map quote_char k) @ CHR 0x22 # CHR '':'' # json_stringify v @ X) = R"
proof -
  from assms(1,2) obtain n1 where n1: "\<forall>m\<ge>n1. pval m (json_stringify v @ X) = Inr (v, X)"
    by (auto simp: pval_rt_def)
  from assms(4) obtain n2 where n2: "\<forall>m\<ge>n2. pobj_rest m (acc @ [(k, v)]) X = R" by blast
  have "\<forall>m\<ge>Suc (max n1 n2).
     pmember m acc (concat (map quote_char k) @ CHR 0x22 # CHR '':'' # json_stringify v @ X) = R"
  proof (intro allI impI)
    fix m assume "Suc (max n1 n2) \<le> m"
    then obtain m' where "m = Suc m'" "n1 \<le> m'" "n2 \<le> m'" by (cases m) auto
    then show "pmember m acc (concat (map quote_char k) @ CHR 0x22 # CHR '':'' # json_stringify v @ X) = R"
      using n1 n2 assms(3) by (simp add: pstr_quote)
  qed
  then show ?thesis by blast
qed

lemma keys_canon_prefix: "keys_canon (xs @ ys) \<Longrightarrow> keys_canon xs"
  by (simp add: keys_canon_def sorted_wrt_append)

lemma pobj_rest_rt:
  assumes "\<forall>p \<in> set ps. pval_rt (snd p)" "keys_canon (map fst (acc @ ps))"
  shows "\<exists>n. \<forall>m\<ge>n. pobj_rest m acc (members_text ps @ CHR ''}'' # r) = Inr (acc @ ps, r)"
  using assms
proof (induction ps arbitrary: acc)
  case Nil
  have "\<forall>m\<ge>Suc 0. pobj_rest m acc (CHR ''}'' # r) = Inr (acc, r)"
    by (simp add: all_ge_Suc)
  then show ?case by auto
next
  case (Cons p ps)
  obtain k v where p: "p = (k, v)" by (cases p)
  let ?X = "members_text ps @ CHR ''}'' # r"
  have fo: "follow_ok ?X" by (cases ps) (simp_all add: follow_ok_def)
  have canon: "keys_canon (map fst (acc @ [(k, v)]))"
    using Cons.prems(2) p keys_canon_prefix [of "map fst (acc @ [(k, v)])" "map fst ps"] by simp
  have set: "obj_set acc k v = acc @ [(k, v)]" using canon by (rule obj_set_append_canon)
  have vrt: "pval_rt v" using Cons.prems(1) p by simp
  have "\<exists>n. \<forall>m\<ge>n. pobj_rest m (acc @ [(k, v)]) ?X = Inr (acc @ p # ps, r)"
    using Cons.IH [of "acc @ [(k, v)]"] Cons.prems p by simp
  then have "\<exists>n. \<forall>m\<ge>n. pmember m acc (concat (map quote_char k) @ CHR 0x22 # CHR '':'' # json_stringify v @ ?X)
          = Inr (acc @ p # ps, r)"
    by (rule pmember_rt [OF vrt fo set])
  then obtain n where
    n: "\<forall>m\<ge>n. pmember m acc (concat (map quote_char k) @ CHR 0x22 # CHR '':'' # json_stringify v @ ?X)
          = Inr (acc @ p # ps, r)" by blast
  have "\<forall>m\<ge>Suc n. pobj_rest m acc (members_text (p # ps) @ CHR ''}'' # r) = Inr (acc @ p # ps, r)"
    using n p by (simp add: all_ge_Suc member_text_def quote_def)
  then show ?case by blast
qed

section \<open>Reading back with enough fuel\<close>

lemma parr_rt:
  assumes "\<forall>x \<in> set vs. pval_rt x"
  shows "\<exists>n. \<forall>m\<ge>n. parr m (commas (map json_stringify vs) @ CHR '']'' # r) = Inr (vs, r)"
proof (cases vs)
  case Nil
  have "\<forall>m\<ge>Suc 0. parr m (CHR '']'' # r) = Inr ([], r)" by (simp add: all_ge_Suc)
  with Nil show ?thesis by auto
next
  case (Cons x xs)
  let ?X = "elems_text xs @ CHR '']'' # r"
  have fo: "follow_ok ?X" by (cases xs) (simp_all add: follow_ok_def)
  from assms Cons fo obtain n1 where n1: "\<forall>m\<ge>n1. pval m (json_stringify x @ ?X) = Inr (x, ?X)"
    by (auto simp: pval_rt_def)
  from parr_rest_rt [of xs "[x]" r] assms Cons obtain n2 where
    n2: "\<forall>m\<ge>n2. parr_rest m [x] ?X = Inr ([x] @ xs, r)" by auto
  obtain c cs where c: "json_stringify x = c # cs" "\<not> json_ws c" "c \<noteq> CHR '']''"
    using stringify_start [of x] by blast
  have "\<forall>m\<ge>Suc (max n1 n2). parr m (commas (map json_stringify vs) @ CHR '']'' # r) = Inr (vs, r)"
  proof (intro allI impI)
    fix m assume "Suc (max n1 n2) \<le> m"
    then obtain m' where m: "m = Suc m'" "n1 \<le> m'" "n2 \<le> m'" by (cases m) auto
    have "parr (Suc m') (json_stringify x @ ?X) = parr_rest m' [x] ?X"
      using n1 m c by (simp add: skip_ws_Cons)
    with m n2 Cons show "parr m (commas (map json_stringify vs) @ CHR '']'' # r) = Inr (vs, r)"
      by (simp add: commas_Cons)
  qed
  then show ?thesis by blast
qed

lemma pobj_rt:
  assumes "\<forall>p \<in> set ps. pval_rt (snd p)" "keys_canon (map fst ps)"
  shows "\<exists>n. \<forall>m\<ge>n. pobj m (commas (map member_text ps) @ CHR ''}'' # r) = Inr (ps, r)"
proof (cases ps)
  case Nil
  have "\<forall>m\<ge>Suc 0. pobj m (CHR ''}'' # r) = Inr ([], r)" by (simp add: all_ge_Suc)
  with Nil show ?thesis by auto
next
  case (Cons p ps')
  obtain k v where p: "p = (k, v)" by (cases p)
  let ?X = "members_text ps' @ CHR ''}'' # r"
  have fo: "follow_ok ?X" by (cases ps') (simp_all add: follow_ok_def)
  have canon: "keys_canon (map fst ([] @ [(k, v)]))"
    using assms(2) Cons p keys_canon_prefix [of "[k]" "map fst ps'"] by simp
  have set: "obj_set [] k v = [] @ [(k, v)]" using canon by (rule obj_set_append_canon)
  have vrt: "pval_rt v" using assms(1) Cons p by simp
  have "\<exists>n. \<forall>m\<ge>n. pobj_rest m ([] @ [(k, v)]) ?X = Inr (p # ps', r)"
    using pobj_rest_rt [of ps' "[(k, v)]" r] assms Cons p by simp
  then have "\<exists>n. \<forall>m\<ge>n. pmember m [] (concat (map quote_char k) @ CHR 0x22 # CHR '':'' # json_stringify v @ ?X)
      = Inr (p # ps', r)"
    by (rule pmember_rt [OF vrt fo set])
  then obtain n where n: "\<forall>m\<ge>n. pmember m [] (concat (map quote_char k) @ CHR 0x22 # CHR '':'' # json_stringify v @ ?X)
      = Inr (p # ps', r)" by blast
  have "\<forall>m\<ge>Suc n. pobj m (commas (map member_text ps) @ CHR ''}'' # r) = Inr (ps, r)"
    using n p Cons by (simp add: all_ge_Suc commas_Cons member_text_def quote_def)
  then show ?thesis by blast
qed

lemma pval_roundtrip: "json_wf v \<Longrightarrow> pval_rt v"
proof (induction v)
  case JNull
  have "\<forall>m\<ge>Suc 0. pval m (json_stringify JNull @ r) = Inr (JNull, r)" for r
    by (simp add: all_ge_Suc skip_ws_Cons json_ws_def is_digit_def)
  then show ?case unfolding pval_rt_def by blast
next
  case (JBool b)
  have "\<forall>m\<ge>Suc 0. pval m (json_stringify (JBool b) @ r) = Inr (JBool b, r)" for r
    by (simp add: all_ge_Suc skip_ws_Cons json_ws_def is_digit_def)
  then show ?case unfolding pval_rt_def by blast
next
  case (JNum i)
  have "\<forall>m\<ge>Suc 0. pval m (json_stringify (JNum i) @ r) = Inr (JNum i, r)" if fo: "follow_ok r" for r
  proof -
    obtain c cs where c: "show_int i @ r = c # cs" "\<not> json_ws c"
      using stringify_start [of "JNum i"] by auto
    have "c = CHR ''-'' \<or> is_digit c"
    proof (cases "i < 0")
      case True
      with c show ?thesis by (simp add: show_int_def)
    next
      case False
      obtain d ds where "show_nat (nat i) = d # ds" by (cases "show_nat (nat i)") auto
      moreover have "is_digit d" using show_nat_digits [of "nat i"] calculation by simp
      ultimately show ?thesis using False c by (simp add: show_int_def)
    qed
    then have "c \<noteq> CHR ''['' \<and> c \<noteq> CHR ''{'' \<and> c \<noteq> CHR 0x22"
      by (auto simp: is_digit_def)
    moreover have "pnum (c # cs) = Some (i, r)" using pnum_show_int [OF fo, of i] c by simp
    ultimately show ?thesis using c \<open>c = CHR ''-'' \<or> is_digit c\<close>
      by (simp add: all_ge_Suc skip_ws_Cons)
  qed
  then show ?case unfolding pval_rt_def by blast
next
  case (JStr s)
  have "\<forall>m\<ge>Suc 0. pval m (json_stringify (JStr s) @ r) = Inr (JStr s, r)" for r
    by (simp add: all_ge_Suc skip_ws_Cons json_ws_def quote_def pstr_quote is_digit_def)
  then show ?case unfolding pval_rt_def by blast
next
  case (JArr vs)
  then have all: "\<forall>x \<in> set vs. pval_rt x" by simp
  show ?case unfolding pval_rt_def
  proof (intro allI impI)
    fix r assume "follow_ok r"
    obtain n where n: "\<forall>m\<ge>n. parr m (commas (map json_stringify vs) @ CHR '']'' # r) = Inr (vs, r)"
      using parr_rt [OF all] by blast
    have "\<forall>m\<ge>Suc n. pval m (json_stringify (JArr vs) @ r) = Inr (JArr vs, r)"
      using n by (simp add: all_ge_Suc skip_ws_Cons json_ws_def stringify_elems_map)
    then show "\<exists>n. \<forall>m\<ge>n. pval m (json_stringify (JArr vs) @ r) = Inr (JArr vs, r)" by blast
  qed
next
  case (JObj ps)
  then have all: "\<forall>p \<in> set ps. pval_rt (snd p)" and canon: "keys_canon (map fst ps)"
    by (auto simp: snds.simps)
  show ?case unfolding pval_rt_def
  proof (intro allI impI)
    fix r assume "follow_ok r"
    obtain n where n: "\<forall>m\<ge>n. pobj m (commas (map member_text ps) @ CHR ''}'' # r) = Inr (ps, r)"
      using pobj_rt [OF all canon] by blast
    have "\<forall>m\<ge>Suc n. pval m (json_stringify (JObj ps) @ r) = Inr (JObj ps, r)"
      using n by (simp add: all_ge_Suc skip_ws_Cons json_ws_def stringify_members_map)
    then show "\<exists>n. \<forall>m\<ge>n. pval m (json_stringify (JObj ps) @ r) = Inr (JObj ps, r)" by blast
  qed
qed

section \<open>More fuel never changes a result\<close>

lemma fle_refl: "fle x x"
  by (simp add: fle_def)

lemma fle_bind:
  "fle x y \<Longrightarrow> (\<And>a b. fle (f a b) (g a b)) \<Longrightarrow>
   fle (case x of Inl e \<Rightarrow> Inl e | Inr (a, b) \<Rightarrow> f a b) (case y of Inl e \<Rightarrow> Inl e | Inr (a, b) \<Rightarrow> g a b)"
  by (auto simp: fle_def split: sum.split)

lemma fle_bind_map:
  "fle x y \<Longrightarrow>
   fle (case x of Inl e \<Rightarrow> Inl e | Inr (a, b) \<Rightarrow> Inr (f a, b)) (case y of Inl e \<Rightarrow> Inl e | Inr (a, b) \<Rightarrow> Inr (f a, b))"
  by (auto simp: fle_def split: sum.split)

lemma fle_if: "fle a a' \<Longrightarrow> fle b b' \<Longrightarrow> fle (if c then a else b) (if c then a' else b')"
  by simp

lemma fle_list: "fle a a' \<Longrightarrow> (\<And>y ys. fle (f y ys) (f' y ys)) \<Longrightarrow>
   fle (case xs of [] \<Rightarrow> a | y # ys \<Rightarrow> f y ys) (case xs of [] \<Rightarrow> a' | y # ys \<Rightarrow> f' y ys)"
  by (cases xs) simp_all

lemma fle_option: "fle a a' \<Longrightarrow> (\<And>y z. fle (f y z) (f' y z)) \<Longrightarrow>
   fle (case x of None \<Rightarrow> a | Some (y, z) \<Rightarrow> f y z) (case x of None \<Rightarrow> a' | Some (y, z) \<Rightarrow> f' y z)"
  by (cases x) auto

lemmas fle_intros = fle_if fle_list fle_option fle_bind fle_bind_map fle_refl

lemma fuel_mono:
  "(\<forall>s. fle (pval n s) (pval (Suc n) s))
   \<and> (\<forall>s. fle (parr n s) (parr (Suc n) s))
   \<and> (\<forall>acc s. fle (parr_rest n acc s) (parr_rest (Suc n) acc s))
   \<and> (\<forall>s. fle (pobj n s) (pobj (Suc n) s))
   \<and> (\<forall>acc s. fle (pmember n acc s) (pmember (Suc n) acc s))
   \<and> (\<forall>acc s. fle (pobj_rest n acc s) (pobj_rest (Suc n) acc s))"
proof (induction n)
  case 0
  show ?case by (simp add: fle_def)
next
  case (Suc n)
  then have IH: "fle (pval n s) (pval (Suc n) s)" "fle (parr n s) (parr (Suc n) s)"
      "fle (parr_rest n acc s) (parr_rest (Suc n) acc s)" "fle (pobj n s) (pobj (Suc n) s)"
      "fle (pmember n oacc s) (pmember (Suc n) oacc s)" "fle (pobj_rest n oacc s) (pobj_rest (Suc n) oacc s)"
    for s acc oacc by blast+
  have 1: "fle (pval (Suc n) s) (pval (Suc (Suc n)) s)" for s
    unfolding pval.simps(2) [of n s] pval.simps(2) [of "Suc n" s] by (intro fle_intros IH)
  have 2: "fle (parr (Suc n) s) (parr (Suc (Suc n)) s)" for s
    unfolding parr.simps(2) [of n s] parr.simps(2) [of "Suc n" s] by (intro fle_intros IH)
  have 3: "fle (parr_rest (Suc n) acc s) (parr_rest (Suc (Suc n)) acc s)" for acc s
    unfolding parr_rest.simps(2) [of n acc s] parr_rest.simps(2) [of "Suc n" acc s] by (intro fle_intros IH)
  have 4: "fle (pobj (Suc n) s) (pobj (Suc (Suc n)) s)" for s
    unfolding pobj.simps(2) [of n s] pobj.simps(2) [of "Suc n" s] by (intro fle_intros IH)
  have 5: "fle (pmember (Suc n) acc s) (pmember (Suc (Suc n)) acc s)" for acc s
    unfolding pmember.simps(2) [of n acc s] pmember.simps(2) [of "Suc n" acc s] by (intro fle_intros IH)
  have 6: "fle (pobj_rest (Suc n) acc s) (pobj_rest (Suc (Suc n)) acc s)" for acc s
    unfolding pobj_rest.simps(2) [of n acc s] pobj_rest.simps(2) [of "Suc n" acc s] by (intro fle_intros IH)
  show ?case using 1 2 3 4 5 6 by blast
qed

section \<open>Every successful call consumes input\<close>

lemma length_skip_ws: "length (skip_ws s) \<le> length s"
  by (simp add: skip_ws_def length_dropWhile_le)

lemma map_option_apfst_SomeD: "map_option (apfst f) x = Some (t, r) \<Longrightarrow> \<exists>t'. x = Some (t', r)"
  by (cases x) auto

lemma pstr_Cons_SomeD:
  "pstr (c # cs) = Some (t, r) \<Longrightarrow> r = cs \<or> (\<exists>rest t'. length rest \<le> length cs \<and> pstr rest = Some (t', r))"
  by (auto split: if_splits list.splits option.splits dest!: map_option_apfst_SomeD)

lemma pstr_shorter: "pstr s = Some (t, r) \<Longrightarrow> length r < length s"
proof (induction s arbitrary: t rule: length_induct)
  case (1 s)
  show ?case
  proof (cases s)
    case Nil
    with "1.prems" show ?thesis by simp
  next
    case (Cons c cs)
    with "1.prems" consider "r = cs" | rest t' where "length rest \<le> length cs" "pstr rest = Some (t', r)"
      using pstr_Cons_SomeD by blast
    then show ?thesis
    proof cases
      case 1
      with Cons show ?thesis by simp
    next
      case 2
      with Cons "1.IH" have "length r < length rest" by auto
      with 2 Cons show ?thesis by simp
    qed
  qed
qed

lemma pnum_shorter: "pnum s = Some (i, r) \<Longrightarrow> length r < length s"
  by (auto simp: pnum_def pdigits_def intro!: less_SucI le_imp_less_Suc le_SucI length_dropWhile_le
      split: list.splits if_splits option.splits)

lemma pval_Suc_InrD:
  assumes "pval (Suc n) s = Inr (v, r)"
  shows "\<exists>c r0. skip_ws s = c # r0 \<and>
    ((\<exists>vs. parr n r0 = Inr (vs, r)) \<or> (\<exists>ps. pobj n r0 = Inr (ps, r)) \<or> (\<exists>t. pstr r0 = Some (t, r))
     \<or> (\<exists>i. pnum (c # r0) = Some (i, r)) \<or> r = drop 3 r0 \<or> r = drop 4 r0)"
  using assms by (auto split: list.splits if_splits sum.splits option.splits)

lemma parr_Suc_InrD:
  assumes "parr (Suc n) s = Inr (vs, r)"
  shows "\<exists>c r0. skip_ws s = c # r0 \<and> (r = r0 \<or> (\<exists>v r'. pval n s = Inr (v, r') \<and> parr_rest n [v] r' = Inr (vs, r)))"
  using assms by (auto split: list.splits if_splits sum.splits)

lemma parr_rest_Suc_InrD:
  assumes "parr_rest (Suc n) acc s = Inr (vs, r)"
  shows "\<exists>c r0. skip_ws s = c # r0 \<and> (r = r0 \<or> (\<exists>v r'. pval n r0 = Inr (v, r') \<and> parr_rest n (acc @ [v]) r' = Inr (vs, r)))"
  using assms by (auto split: list.splits if_splits sum.splits)

lemma pobj_Suc_InrD:
  assumes "pobj (Suc n) s = Inr (ps, r)"
  shows "\<exists>c r0. skip_ws s = c # r0 \<and> (r = r0 \<or> pmember n [] r0 = Inr (ps, r))"
  using assms by (auto split: list.splits if_splits)

lemma pmember_Suc_InrD:
  assumes "pmember (Suc n) acc s = Inr (ps, r)"
  shows "\<exists>k r1 c r2 v r3. pstr s = Some (k, r1) \<and> skip_ws r1 = c # r2 \<and> pval n r2 = Inr (v, r3)
     \<and> pobj_rest n (obj_set acc k v) r3 = Inr (ps, r)"
  using assms by (auto split: list.splits if_splits sum.splits option.splits)

lemma pobj_rest_Suc_InrD:
  assumes "pobj_rest (Suc n) acc s = Inr (ps, r)"
  shows "\<exists>c r0. skip_ws s = c # r0 \<and> (r = r0 \<or> (\<exists>d r1. skip_ws r0 = d # r1 \<and> pmember n acc r1 = Inr (ps, r)))"
  using assms by (auto split: list.splits if_splits)

lemma skip_ws_ConsD: "skip_ws s = c # r \<Longrightarrow> length r < length s"
  using length_skip_ws [of s] by simp

lemma consumes:
  "(\<forall>s v r. pval n s = Inr (v, r) \<longrightarrow> length r < length s)
   \<and> (\<forall>s vs r. parr n s = Inr (vs, r) \<longrightarrow> length r < length s)
   \<and> (\<forall>acc s vs r. parr_rest n acc s = Inr (vs, r) \<longrightarrow> length r < length s)
   \<and> (\<forall>s ps r. pobj n s = Inr (ps, r) \<longrightarrow> length r < length s)
   \<and> (\<forall>acc s ps r. pmember n acc s = Inr (ps, r) \<longrightarrow> length r < length s)
   \<and> (\<forall>acc s ps r. pobj_rest n acc s = Inr (ps, r) \<longrightarrow> length r < length s)"
proof (induction n)
  case 0
  show ?case by simp
next
  case (Suc n)
  note IH1 = Suc.IH [THEN conjunct1, rule_format]
  note IH2 = Suc.IH [THEN conjunct2, THEN conjunct1, rule_format]
  note IH3 = Suc.IH [THEN conjunct2, THEN conjunct2, THEN conjunct1, rule_format]
  note IH4 = Suc.IH [THEN conjunct2, THEN conjunct2, THEN conjunct2, THEN conjunct1, rule_format]
  note IH5 = Suc.IH [THEN conjunct2, THEN conjunct2, THEN conjunct2, THEN conjunct2, THEN conjunct1, rule_format]
  note IH6 = Suc.IH [THEN conjunct2, THEN conjunct2, THEN conjunct2, THEN conjunct2, THEN conjunct2, rule_format]
  have 1: "length r < length s" if "pval (Suc n) s = Inr (v, r)" for s v r
  proof -
    from pval_Suc_InrD [OF that] obtain c r0 where c: "skip_ws s = c # r0" and
      alt: "(\<exists>vs. parr n r0 = Inr (vs, r)) \<or> (\<exists>ps. pobj n r0 = Inr (ps, r)) \<or> (\<exists>t. pstr r0 = Some (t, r))
         \<or> (\<exists>i. pnum (c # r0) = Some (i, r)) \<or> r = drop 3 r0 \<or> r = drop 4 r0" by blast
    from c have s: "length r0 < length s" by (rule skip_ws_ConsD)
    from alt have "length r \<le> length r0"
    proof (elim disjE exE)
      fix i assume "pnum (c # r0) = Some (i, r)"
      from pnum_shorter [OF this] show ?thesis by simp
    qed (auto dest: IH2 IH4 pstr_shorter)
    with s show ?thesis by simp
  qed
  have 2: "length r < length s" if "parr (Suc n) s = Inr (vs, r)" for s vs r
  proof -
    from parr_Suc_InrD [OF that] obtain c r0 where c: "skip_ws s = c # r0" and
      alt: "r = r0 \<or> (\<exists>v r'. pval n s = Inr (v, r') \<and> parr_rest n [v] r' = Inr (vs, r))" by blast
    from c have s: "length r0 < length s" by (rule skip_ws_ConsD)
    from alt show ?thesis
    proof (elim disjE exE conjE)
      fix v r' assume a: "pval n s = Inr (v, r')" "parr_rest n [v] r' = Inr (vs, r)"
      from IH1 [OF a(1)] IH3 [OF a(2)] show ?thesis by simp
    qed (use s in simp)
  qed
  have 3: "length r < length s" if "parr_rest (Suc n) acc s = Inr (vs, r)" for acc s vs r
  proof -
    from parr_rest_Suc_InrD [OF that] obtain c r0 where c: "skip_ws s = c # r0" and
      alt: "r = r0 \<or> (\<exists>v r'. pval n r0 = Inr (v, r') \<and> parr_rest n (acc @ [v]) r' = Inr (vs, r))" by blast
    from c have s: "length r0 < length s" by (rule skip_ws_ConsD)
    from alt show ?thesis
    proof (elim disjE exE conjE)
      fix v r' assume a: "pval n r0 = Inr (v, r')" "parr_rest n (acc @ [v]) r' = Inr (vs, r)"
      from IH1 [OF a(1)] IH3 [OF a(2)] s show ?thesis by simp
    qed (use s in simp)
  qed
  have 4: "length r < length s" if "pobj (Suc n) s = Inr (ps, r)" for s ps r
  proof -
    from pobj_Suc_InrD [OF that] obtain c r0 where c: "skip_ws s = c # r0" and
      alt: "r = r0 \<or> pmember n [] r0 = Inr (ps, r)" by blast
    from c have s: "length r0 < length s" by (rule skip_ws_ConsD)
    from alt show ?thesis
    proof
      assume "pmember n [] r0 = Inr (ps, r)"
      from IH5 [OF this] s show ?thesis by simp
    qed (use s in simp)
  qed
  have 5: "length r < length s" if "pmember (Suc n) acc s = Inr (ps, r)" for acc s ps r
  proof -
    from pmember_Suc_InrD [OF that] obtain k r1 c r2 v r3 where
      a: "pstr s = Some (k, r1)" "skip_ws r1 = c # r2" "pval n r2 = Inr (v, r3)"
         "pobj_rest n (obj_set acc k v) r3 = Inr (ps, r)" by blast
    from pstr_shorter [OF a(1)] skip_ws_ConsD [OF a(2)] IH1 [OF a(3)] IH6 [OF a(4)]
    show ?thesis by simp
  qed
  have 6: "length r < length s" if "pobj_rest (Suc n) acc s = Inr (ps, r)" for acc s ps r
  proof -
    from pobj_rest_Suc_InrD [OF that] obtain c r0 where c: "skip_ws s = c # r0" and
      alt: "r = r0 \<or> (\<exists>d r1. skip_ws r0 = d # r1 \<and> pmember n acc r1 = Inr (ps, r))" by blast
    from c have s: "length r0 < length s" by (rule skip_ws_ConsD)
    from alt show ?thesis
    proof (elim disjE exE conjE)
      fix d r1 assume a: "skip_ws r0 = d # r1" "pmember n acc r1 = Inr (ps, r)"
      from skip_ws_ConsD [OF a(1)] IH5 [OF a(2)] s show ?thesis by simp
    qed (use s in simp)
  qed
  show ?case using 1 2 3 4 5 6 by blast
qed

section \<open>Running out of fuel\<close>

lemma pval_Suc_FuelD:
  assumes "pval (Suc n) s = Inl PFuel"
  shows "\<exists>c r0. skip_ws s = c # r0 \<and> (parr n r0 = Inl PFuel \<or> pobj n r0 = Inl PFuel)"
  using assms by (auto split: list.splits if_splits sum.splits option.splits)

lemma parr_Suc_FuelD:
  assumes "parr (Suc n) s = Inl PFuel"
  shows "pval n s = Inl PFuel \<or> (\<exists>v r'. pval n s = Inr (v, r') \<and> parr_rest n [v] r' = Inl PFuel)"
  using assms by (auto split: list.splits if_splits sum.splits)

lemma parr_rest_Suc_FuelD:
  assumes "parr_rest (Suc n) acc s = Inl PFuel"
  shows "\<exists>c r0. skip_ws s = c # r0 \<and> (pval n r0 = Inl PFuel
     \<or> (\<exists>v r'. pval n r0 = Inr (v, r') \<and> parr_rest n (acc @ [v]) r' = Inl PFuel))"
  using assms by (auto split: list.splits if_splits sum.splits)

lemma pobj_Suc_FuelD:
  assumes "pobj (Suc n) s = Inl PFuel"
  shows "\<exists>c r0. skip_ws s = c # r0 \<and> pmember n [] r0 = Inl PFuel"
  using assms by (auto split: list.splits if_splits)

lemma pmember_Suc_FuelD:
  assumes "pmember (Suc n) acc s = Inl PFuel"
  shows "\<exists>k r1 c r2. pstr s = Some (k, r1) \<and> skip_ws r1 = c # r2 \<and> (pval n r2 = Inl PFuel
     \<or> (\<exists>v r3. pval n r2 = Inr (v, r3) \<and> pobj_rest n (obj_set acc k v) r3 = Inl PFuel))"
  using assms by (auto split: list.splits if_splits sum.splits option.splits)

lemma pobj_rest_Suc_FuelD:
  assumes "pobj_rest (Suc n) acc s = Inl PFuel"
  shows "\<exists>c r0 d r1. skip_ws s = c # r0 \<and> skip_ws r0 = d # r1 \<and> pmember n acc r1 = Inl PFuel"
  using assms by (auto split: list.splits if_splits)

lemmas pval_shorter = consumes [THEN conjunct1, rule_format]
lemma enough_fuel:
  "(\<forall>s. 2 * length s < n \<longrightarrow> pval n s \<noteq> Inl PFuel)
   \<and> (\<forall>s. 2 * length s + 1 < n \<longrightarrow> parr n s \<noteq> Inl PFuel)
   \<and> (\<forall>acc s. 2 * length s < n \<longrightarrow> parr_rest n acc s \<noteq> Inl PFuel)
   \<and> (\<forall>s. 2 * length s < n \<longrightarrow> pobj n s \<noteq> Inl PFuel)
   \<and> (\<forall>acc s. 2 * length s < n \<longrightarrow> pmember n acc s \<noteq> Inl PFuel)
   \<and> (\<forall>acc s. 2 * length s < n \<longrightarrow> pobj_rest n acc s \<noteq> Inl PFuel)"
proof (induction n)
  case 0
  show ?case by simp
next
  case (Suc n)
  note IH1 = Suc.IH [THEN conjunct1, rule_format]
  note IH2 = Suc.IH [THEN conjunct2, THEN conjunct1, rule_format]
  note IH3 = Suc.IH [THEN conjunct2, THEN conjunct2, THEN conjunct1, rule_format]
  note IH4 = Suc.IH [THEN conjunct2, THEN conjunct2, THEN conjunct2, THEN conjunct1, rule_format]
  note IH5 = Suc.IH [THEN conjunct2, THEN conjunct2, THEN conjunct2, THEN conjunct2, THEN conjunct1, rule_format]
  note IH6 = Suc.IH [THEN conjunct2, THEN conjunct2, THEN conjunct2, THEN conjunct2, THEN conjunct2, rule_format]
  have 1: "pval (Suc n) s \<noteq> Inl PFuel" if n: "2 * length s < Suc n" for s
  proof
    assume "pval (Suc n) s = Inl PFuel"
    from pval_Suc_FuelD [OF this] obtain c r0 where c: "skip_ws s = c # r0"
      and f: "parr n r0 = Inl PFuel \<or> pobj n r0 = Inl PFuel" by blast
    from skip_ws_ConsD [OF c] n have "2 * length r0 + 1 < n" by simp
    with f IH2 [of r0] IH4 [of r0] show False by auto
  qed
  have 2: "parr (Suc n) s \<noteq> Inl PFuel" if n: "2 * length s + 1 < Suc n" for s
  proof
    assume "parr (Suc n) s = Inl PFuel"
    from parr_Suc_FuelD [OF this] show False
    proof (elim disjE exE conjE)
      assume "pval n s = Inl PFuel"
      with IH1 [of s] n show False by simp
    next
      fix v r' assume a: "pval n s = Inr (v, r')" "parr_rest n [v] r' = Inl PFuel"
      from pval_shorter [OF a(1)] n have "2 * length r' < n" by simp
      with IH3 a(2) show False by blast
    qed
  qed
  have 3: "parr_rest (Suc n) acc s \<noteq> Inl PFuel" if n: "2 * length s < Suc n" for acc s
  proof
    assume "parr_rest (Suc n) acc s = Inl PFuel"
    from parr_rest_Suc_FuelD [OF this] obtain c r0 where c: "skip_ws s = c # r0"
      and f: "pval n r0 = Inl PFuel
        \<or> (\<exists>v r'. pval n r0 = Inr (v, r') \<and> parr_rest n (acc @ [v]) r' = Inl PFuel)" by blast
    from skip_ws_ConsD [OF c] n have l: "2 * length r0 < n" by simp
    from f show False
    proof (elim disjE exE conjE)
      assume "pval n r0 = Inl PFuel"
      with IH1 l show False by blast
    next
      fix v r' assume a: "pval n r0 = Inr (v, r')" "parr_rest n (acc @ [v]) r' = Inl PFuel"
      from pval_shorter [OF a(1)] l have "2 * length r' < n" by simp
      with IH3 a(2) show False by blast
    qed
  qed
  have 4: "pobj (Suc n) s \<noteq> Inl PFuel" if n: "2 * length s < Suc n" for s
  proof
    assume "pobj (Suc n) s = Inl PFuel"
    from pobj_Suc_FuelD [OF this] obtain c r0 where c: "skip_ws s = c # r0"
      and f: "pmember n [] r0 = Inl PFuel" by blast
    from skip_ws_ConsD [OF c] n have "2 * length r0 < n" by simp
    with IH5 f show False by blast
  qed
  have 5: "pmember (Suc n) acc s \<noteq> Inl PFuel" if n: "2 * length s < Suc n" for acc s
  proof
    assume "pmember (Suc n) acc s = Inl PFuel"
    from pmember_Suc_FuelD [OF this] obtain k r1 c r2 where
      a: "pstr s = Some (k, r1)" "skip_ws r1 = c # r2" and
      f: "pval n r2 = Inl PFuel
        \<or> (\<exists>v r3. pval n r2 = Inr (v, r3) \<and> pobj_rest n (obj_set acc k v) r3 = Inl PFuel)" by blast
    from pstr_shorter [OF a(1)] skip_ws_ConsD [OF a(2)] n have l: "2 * length r2 < n" by simp
    from f show False
    proof (elim disjE exE conjE)
      assume "pval n r2 = Inl PFuel"
      with IH1 l show False by blast
    next
      fix v r3 assume b: "pval n r2 = Inr (v, r3)" "pobj_rest n (obj_set acc k v) r3 = Inl PFuel"
      from pval_shorter [OF b(1)] l have "2 * length r3 < n" by simp
      with IH6 b(2) show False by blast
    qed
  qed
  have 6: "pobj_rest (Suc n) acc s \<noteq> Inl PFuel" if n: "2 * length s < Suc n" for acc s
  proof
    assume "pobj_rest (Suc n) acc s = Inl PFuel"
    from pobj_rest_Suc_FuelD [OF this] obtain c r0 d r1 where
      a: "skip_ws s = c # r0" "skip_ws r0 = d # r1" and f: "pmember n acc r1 = Inl PFuel" by blast
    from skip_ws_ConsD [OF a(1)] skip_ws_ConsD [OF a(2)] n have "2 * length r1 < n" by simp
    with IH5 f show False by blast
  qed
  show ?case using 1 2 3 4 5 6 by blast
qed

section \<open>The round trip through json_parse\<close>

lemma pval_stable:
  assumes "pval n s \<noteq> Inl PFuel" "n \<le> m"
  shows "pval m s = pval n s"
  using assms(2)
proof (induction m)
  case 0
  then show ?case by simp
next
  case (Suc m)
  show ?case
  proof (cases "n = Suc m")
    case False
    with Suc have eq: "pval m s = pval n s" by simp
    from fuel_mono [THEN conjunct1, rule_format, of m s] eq assms(1)
    show ?thesis by (simp add: fle_def)
  qed simp
qed

lemma pval_enough_fuel: "2 * length s < n \<Longrightarrow> pval n s \<noteq> Inl PFuel"
  using enough_fuel by blast

lemma json_parse_stringify:
  assumes "json_wf v"
  shows "json_parse (json_stringify v) = Some v"
proof -
  let ?s = "json_stringify v"
  from pval_roundtrip [OF assms] obtain n0 where
    n0: "\<forall>m\<ge>n0. pval m (?s @ []) = Inr (v, [])"
    unfolding pval_rt_def follow_ok_def by blast
  let ?f = "2 * length ?s + 2"
  have "pval (max n0 ?f) ?s = pval ?f ?s"
    by (rule pval_stable) (simp_all add: pval_enough_fuel del: pval.simps)
  with n0 [rule_format, of "max n0 ?f"] have "pval ?f ?s = Inr (v, [])" by (simp del: pval.simps)
  then show ?thesis by (simp add: json_parse_def skip_ws_def del: pval.simps)
qed


section \<open>What json_parse returns is well formed\<close>

lemma res_ok_Inl [simp]: "res_ok P (Inl e)"
  by (simp add: res_ok_def)

lemma res_ok_Inr [simp]: "res_ok P (Inr (a, r)) = P a"
  by (simp add: res_ok_def)

lemma res_ok_bind:
  "res_ok P x \<Longrightarrow> (\<And>a b. P a \<Longrightarrow> res_ok Q (f a b)) \<Longrightarrow>
   res_ok Q (case x of Inl e \<Rightarrow> Inl e | Inr (a, b) \<Rightarrow> f a b)"
  by (cases x) auto

lemma res_ok_if: "res_ok P a \<Longrightarrow> res_ok P b \<Longrightarrow> res_ok P (if c then a else b)"
  by simp

lemma res_ok_list: "res_ok P a \<Longrightarrow> (\<And>y ys. res_ok P (f y ys)) \<Longrightarrow>
   res_ok P (case xs of [] \<Rightarrow> a | y # ys \<Rightarrow> f y ys)"
  by (cases xs) simp_all

lemma res_ok_option: "res_ok P a \<Longrightarrow> (\<And>y z. res_ok P (f y z)) \<Longrightarrow>
   res_ok P (case x of None \<Rightarrow> a | Some (y, z) \<Rightarrow> f y z)"
  by (cases x) auto

lemmas res_ok_intros = res_ok_if res_ok_list res_ok_option res_ok_bind res_ok_Inl

lemma parse_wf:
  "(\<forall>s. res_ok json_wf (pval n s))
   \<and> (\<forall>s. res_ok (\<lambda>vs. \<forall>v \<in> set vs. json_wf v) (parr n s))
   \<and> (\<forall>acc s. (\<forall>v \<in> set acc. json_wf v) \<longrightarrow> res_ok (\<lambda>vs. \<forall>v \<in> set vs. json_wf v) (parr_rest n acc s))
   \<and> (\<forall>s. res_ok (\<lambda>ps. json_wf (JObj ps)) (pobj n s))
   \<and> (\<forall>acc s. json_wf (JObj acc) \<longrightarrow> res_ok (\<lambda>ps. json_wf (JObj ps)) (pmember n acc s))
   \<and> (\<forall>acc s. json_wf (JObj acc) \<longrightarrow> res_ok (\<lambda>ps. json_wf (JObj ps)) (pobj_rest n acc s))"
proof (induction n)
  case 0
  show ?case by simp
next
  case (Suc n)
  note IH1 = Suc.IH [THEN conjunct1, rule_format]
  note IH2 = Suc.IH [THEN conjunct2, THEN conjunct1, rule_format]
  note IH3 = Suc.IH [THEN conjunct2, THEN conjunct2, THEN conjunct1, rule_format]
  note IH4 = Suc.IH [THEN conjunct2, THEN conjunct2, THEN conjunct2, THEN conjunct1, rule_format]
  note IH5 = Suc.IH [THEN conjunct2, THEN conjunct2, THEN conjunct2, THEN conjunct2, THEN conjunct1, rule_format]
  note IH6 = Suc.IH [THEN conjunct2, THEN conjunct2, THEN conjunct2, THEN conjunct2, THEN conjunct2, rule_format]
  have "res_ok json_wf (pval (Suc n) s)" for s
    unfolding pval.simps(2) [of n s]
    by (intro res_ok_intros; simp add: IH2 IH4 [simplified])
  moreover have "res_ok (\<lambda>vs. \<forall>v \<in> set vs. json_wf v) (parr (Suc n) s)" for s
    unfolding parr.simps(2) [of n s]
    by (intro res_ok_if res_ok_list res_ok_option res_ok_bind [where P = json_wf] IH1; (intro IH3)?; simp)
  moreover have "res_ok (\<lambda>vs. \<forall>v \<in> set vs. json_wf v) (parr_rest (Suc n) acc s)"
    if "\<forall>v \<in> set acc. json_wf v" for acc s
    unfolding parr_rest.simps(2) [of n acc s]
    by (intro res_ok_if res_ok_list res_ok_option res_ok_bind [where P = json_wf] IH1; (intro IH3)?; auto simp: that)
  moreover have "res_ok (\<lambda>ps. json_wf (JObj ps)) (pobj (Suc n) s)" for s
    unfolding pobj.simps(2) [of n s]
    by (intro res_ok_intros; (intro IH5)?; simp add: keys_canon_def)
  moreover have "res_ok (\<lambda>ps. json_wf (JObj ps)) (pmember (Suc n) acc s)"
    if "json_wf (JObj acc)" for acc s
    unfolding pmember.simps(2) [of n acc s]
    by (intro res_ok_if res_ok_list res_ok_option res_ok_bind [where P = json_wf] IH1; (intro IH6 obj_set_wf that)?; simp)
  moreover have "res_ok (\<lambda>ps. json_wf (JObj ps)) (pobj_rest (Suc n) acc s)"
    if "json_wf (JObj acc)" for acc s
    unfolding pobj_rest.simps(2) [of n acc s]
    by (intro res_ok_intros; (intro IH5 that)?; simp add: that [simplified])
  ultimately show ?case by blast
qed

lemma json_parse_wf: "json_parse s = Some v \<Longrightarrow> json_wf v"
  using parse_wf [THEN conjunct1, rule_format, of "2 * length s + 2" s]
  by (auto simp: json_parse_def res_ok_def split: sum.splits if_splits simp del: pval.simps)


section \<open>Properties\<close>




text \<open>
  Assigning a property of an object in canonical key order gives an object
  in canonical key order whose lookup is the old lookup updated at the key.
\<close>

lemma set_prop_canon:
  assumes "keys_canon (map fst ps)"
  shows "\<exists>ps'. set_prop (JObj ps) k x = Inr (JObj ps') \<and> keys_canon (map fst ps')
     \<and> map_of ps' = (map_of ps)(k \<mapsto> x)"
  using obj_set_canon [OF assms] by simp

end
