(* ===== verification/Stored_Record.thy ===== *)
theory Stored_Record
  imports Json_Roundtrip
begin

text \<open>
  The session record both pages keep under the localStorage key \<open>user_data\<close>:
  the object of a token-status answer with \<open>token\<close> and \<open>saved_date\<close> set on it
  (loginScript.js lines 38 and 39, indexScript.js lines 62 and 63), stored with
  \<open>JSON.stringify\<close>.  The lemmas show that the stored text parses back to the same
  object, so the next page reads the token and the date it was given.
\<close>

definition written_record :: "jval \<Rightarrow> jval \<Rightarrow> (string \<times> jval) list \<Rightarrow> jval" where
  "written_record tok sd ps = JObj (obj_set (obj_set ps ''token'' tok) ''saved_date'' sd)"

lemma written_record_field:
  "k \<noteq> ''token'' \<Longrightarrow> k \<noteq> ''saved_date'' \<Longrightarrow> field (written_record tok sd ps) k = map_of ps k"
  by (simp add: written_record_def)

lemma written_record_token [simp]: "field (written_record tok sd ps) ''token'' = Some tok"
  by (simp add: written_record_def)

lemma written_record_saved_date [simp]: "field (written_record tok sd ps) ''saved_date'' = Some sd"
  by (simp add: written_record_def)

lemma json_wf_field: "json_wf w \<Longrightarrow> field w k = Some x \<Longrightarrow> json_wf x"
  by (cases w) (fastforce simp: field_def dest: map_of_SomeD)+

lemma written_record_wf:
  "json_wf (JObj ps) \<Longrightarrow> json_wf tok \<Longrightarrow> json_wf sd \<Longrightarrow> json_wf (written_record tok sd ps)"
  unfolding written_record_def by (intro obj_set_wf) simp_all

lemma written_record_parse:
  assumes "json_parse b = Some (JObj ps)" "json_wf tok" "json_wf sd"
  shows "json_parse (json_stringify (written_record tok sd ps)) = Some (written_record tok sd ps)"
  using json_parse_wf [OF assms(1)] assms(2,3) by (intro json_parse_stringify written_record_wf)

end
