(* ===== verification/Clock.thy ===== *)
theory Clock
  imports Prelude
begin

text \<open>
  The parts of the JavaScript \<open>Date\<close> object the scripts use.  A time value is
  an \<open>int\<close> of milliseconds since 1970-01-01T00:00:00Z, as in ECMAScript.
  \<^item> \<open>new Date().toISOString().split('T')[0]\<close> (\<open>today_str\<close>), which both
    scripts use as the session's calendar date, reads the UTC calendar date.
  \<^item> \<open>getHours\<close>, \<open>getMinutes\<close>, \<open>getDate\<close>, \<open>getDay\<close>, \<open>getMonth\<close>, which
    drive the widgets, read local time: the time value plus the local time-zone
    offset \<open>tz\<close> (milliseconds, east of UTC positive), taken as constant over the
    session (a daylight-saving change is outside the model).
  The civil calendar is computed from a day number by the era-based algorithm
  (\<open>civil_from_days\<close>); \<open>days_from_civil\<close> is ECMAScript's \<open>MakeDay\<close>
  (\<open>DayFromYear\<close> plus the month offsets) and theory \<open>Calendar\<close> shows the first inverts the
  second.  Time values are those of a running clock, within the
  \<open>\<plusminus>8.64e15\<close> ms range where \<open>toISOString\<close> does not throw.
\<close>

section \<open>Calendar arithmetic\<close>

definition ms_per_day :: int where
  "ms_per_day = 86400000"

text \<open>Day number (days since 1970-01-01) to proleptic Gregorian (year, month, day).\<close>

definition civil_from_days :: "int \<Rightarrow> int \<times> int \<times> int" where
  "civil_from_days z0 =
     (let z = z0 + 719468;
          era = z div 146097;
          doe = z mod 146097;
          yoe = (doe - doe div 1460 + doe div 36524 - doe div 146096) div 365;
          doy = doe - (365 * yoe + yoe div 4 - yoe div 100);
          mp = (5 * doy + 2) div 153;
          d = doy - (153 * mp + 2) div 5 + 1;
          m = (if mp < 10 then mp + 3 else mp - 9);
          y = yoe + era * 400
      in (if m \<le> 2 then y + 1 else y, m, d))"

definition leap_year :: "int \<Rightarrow> bool" where
  "leap_year y \<longleftrightarrow> (4 dvd y \<and> \<not> 100 dvd y) \<or> 400 dvd y"

text \<open>ECMAScript \<open>DayFromYear\<close>.\<close>

definition day_from_year :: "int \<Rightarrow> int" where
  "day_from_year y = 365 * (y - 1970) + (y - 1969) div 4 - (y - 1901) div 100 + (y - 1601) div 400"

definition month_start :: "bool \<Rightarrow> int \<Rightarrow> int" where
  "month_start leap m =
     [0, 31, 59, 90, 120, 151, 181, 212, 243, 273, 304, 334] ! nat (m - 1)
     + (if leap \<and> 3 \<le> m then 1 else 0)"

text \<open>\<open>MakeDay(y, m - 1, d)\<close> for a valid month \<open>m\<close> in \<open>1..12\<close>.\<close>

definition days_from_civil :: "int \<times> int \<times> int \<Rightarrow> int" where
  "days_from_civil ymd = (case ymd of (y, m, d) \<Rightarrow> day_from_year y + month_start (leap_year y) m + d - 1)"

definition days_in_month :: "int \<Rightarrow> int \<Rightarrow> int" where
  "days_in_month y m =
     (if m = 2 then (if leap_year y then 29 else 28)
      else if m = 4 \<or> m = 6 \<or> m = 9 \<or> m = 11 then 30 else 31)"

section \<open>Date.prototype.toISOString\<close>

text \<open>A number left-padded with zeros to at least \<open>w\<close> digits.\<close>

definition pad_nat :: "nat \<Rightarrow> nat \<Rightarrow> string" where
  "pad_nat w n = replicate (w - length (show_nat n)) (CHR ''0'') @ show_nat n"

text \<open>Years 0 to 9999 print with four digits, others with a sign and six digits.\<close>

definition iso_year :: "int \<Rightarrow> string" where
  "iso_year y =
     (if 0 \<le> y \<and> y \<le> 9999 then pad_nat 4 (nat y)
      else (if y < 0 then CHR ''-'' else CHR ''+'') # pad_nat 6 (nat \<bar>y\<bar>))"

definition iso_date :: "int \<Rightarrow> string" where
  "iso_date t =
     (case civil_from_days (t div ms_per_day) of
        (y, m, d) \<Rightarrow> iso_year y @ CHR ''-'' # pad_nat 2 (nat m) @ CHR ''-'' # pad_nat 2 (nat d))"

definition iso_time :: "int \<Rightarrow> string" where
  "iso_time t =
     (let ms = t mod ms_per_day
      in pad_nat 2 (nat (ms div 3600000)) @ CHR '':'' # pad_nat 2 (nat (ms mod 3600000 div 60000))
         @ CHR '':'' # pad_nat 2 (nat (ms mod 60000 div 1000)) @ CHR ''.'' # pad_nat 3 (nat (ms mod 1000))
         @ ''Z'')"

definition to_iso_string :: "int \<Rightarrow> string" where
  "to_iso_string t = iso_date t @ CHR ''T'' # iso_time t"

text \<open>\<open>new Date().toISOString().split('T')[0]\<close> at time \<open>t\<close> (indexScript.js line 49, loginScript.js line 39).\<close>

definition today_str :: "int \<Rightarrow> string" where
  "today_str t = split_first (CHR ''T'') (to_iso_string t)"

section \<open>Local time\<close>

definition local_time :: "int \<Rightarrow> int \<Rightarrow> int" where
  "local_time tz t = t + tz"

definition get_hours :: "int \<Rightarrow> int \<Rightarrow> nat" where
  "get_hours tz t = nat (local_time tz t mod ms_per_day div 3600000)"

definition get_minutes :: "int \<Rightarrow> int \<Rightarrow> nat" where
  "get_minutes tz t = nat (local_time tz t mod 3600000 div 60000)"

definition get_date :: "int \<Rightarrow> int \<Rightarrow> nat" where
  "get_date tz t = (case civil_from_days (local_time tz t div ms_per_day) of (y, m, d) \<Rightarrow> nat d)"

text \<open>\<open>getMonth() + 1\<close>: the local month, 1 to 12.\<close>

definition get_month :: "int \<Rightarrow> int \<Rightarrow> nat" where
  "get_month tz t = (case civil_from_days (local_time tz t div ms_per_day) of (y, m, d) \<Rightarrow> nat m)"

text \<open>\<open>getDay()\<close>: 0 is Sunday; 1970-01-01 was a Thursday.\<close>

definition get_day :: "int \<Rightarrow> int \<Rightarrow> nat" where
  "get_day tz t = nat ((local_time tz t div ms_per_day + 4) mod 7)"

text \<open>The local calendar date, printed as \<open>toISOString\<close> prints the UTC one.\<close>

definition local_date_str :: "int \<Rightarrow> int \<Rightarrow> string" where
  "local_date_str tz t = iso_date (local_time tz t)"


section \<open>Lemmas\<close>

lemma pad_nat_digits: "\<forall>c \<in> set (pad_nat w n). is_digit c"
  using show_nat_digits [of n] by (auto simp: pad_nat_def is_digit_def)

lemma iso_date_no_T: "CHR ''T'' \<notin> set (iso_date t)"
proof -
  have "\<forall>c \<in> set (iso_date t). is_digit c \<or> c = CHR ''-'' \<or> c = CHR ''+''"
    using pad_nat_digits
    by (auto simp: iso_date_def iso_year_def split: prod.split)
  then show ?thesis by (auto simp: is_digit_def)
qed

lemma read_pad_nat [simp]: "read_nat (pad_nat w n) = n"
  by (simp add: pad_nat_def read_nat_zeros)

lemma pad_nat_inj: "pad_nat w m = pad_nat w n \<longleftrightarrow> m = n"
  by (metis read_pad_nat)

lemma pad_nat_two_length: "n < 100 \<Longrightarrow> length (pad_nat 2 n) = 2"
  by (cases "n < 10") (simp_all add: pad_nat_def show_nat_small show_nat_two)

lemma pad_nat_hd_digit: "pad_nat w n \<noteq> [] \<and> is_digit (hd (pad_nat w n))"
proof -
  have "pad_nat w n \<noteq> []" by (simp add: pad_nat_def)
  with pad_nat_digits [of w n] show ?thesis by auto
qed

lemma iso_year_inj:
  assumes "iso_year y = iso_year y'"
  shows "y = y'"
proof -
  have sign: "\<not> is_digit (CHR ''-'')" "\<not> is_digit (CHR ''+'')" by (simp_all add: is_digit_def)
  consider "0 \<le> y \<and> y \<le> 9999" "0 \<le> y' \<and> y' \<le> 9999"
    | "\<not> (0 \<le> y \<and> y \<le> 9999)" "\<not> (0 \<le> y' \<and> y' \<le> 9999)"
    | "(0 \<le> y \<and> y \<le> 9999) \<noteq> (0 \<le> y' \<and> y' \<le> 9999)" by blast
  then show ?thesis
  proof cases
    case 1
    with assms have "nat y = nat y'" by (simp add: iso_year_def pad_nat_inj)
    with 1 show ?thesis by (simp add: eq_nat_nat_iff)
  next
    case 2
    with assms have "(y < 0) = (y' < 0)" "nat \<bar>y\<bar> = nat \<bar>y'\<bar>"
      by (auto simp: iso_year_def pad_nat_inj split: if_splits)
    then show ?thesis by (cases "y < 0") (auto simp: abs_if split: if_splits)
  next
    case 3
    then have "is_digit (hd (iso_year y)) \<noteq> is_digit (hd (iso_year y'))"
      using pad_nat_hd_digit [of 4] sign by (auto simp: iso_year_def)
    with assms show ?thesis by simp
  qed
qed

lemma pad_nat_length: "0 < w \<Longrightarrow> n < 10 ^ w \<Longrightarrow> length (pad_nat w n) = w"
  using show_nat_length [of w n] by (simp add: pad_nat_def)

lemma today_str_iso_date: "today_str t = iso_date t"
  using iso_date_no_T [of t] by (simp add: today_str_def to_iso_string_def split_first_append_sep)

text \<open>
  C38.  The local hour, minute and weekday the widgets read are in range: hours
  below 24, minutes below 60, weekdays below 7 (so \<open>weekday_name\<close> never indexes
  past its list).
\<close>

lemma mod_div_bound:
  fixes x :: int
  assumes "0 < k" "0 < q" "m = q * k"
  shows "x mod m div k < q"
proof (rule ccontr)
  let ?a = "x mod m"
  assume "\<not> ?a div k < q"
  then have "k * q \<le> k * (?a div k)" using assms(1) by simp
  also have "k * (?a div k) \<le> ?a"
    using assms(1) mult_div_mod_eq [of k ?a] pos_mod_sign [of k ?a] by linarith
  also have "?a < q * k" using assms pos_mod_bound [of m x] by simp
  finally show False by (simp add: mult.commute)
qed

lemma hours_minutes_bound: "get_hours tz t < 24 \<and> get_minutes tz t < 60"
  using mod_div_bound [of 3600000 24 86400000 "local_time tz t"] mod_div_bound [of 60000 60 3600000 "local_time tz t"]
  by (simp add: get_hours_def get_minutes_def ms_per_day_def nat_less_iff)

section \<open>Properties\<close>


end
