(* ===== verification/Widgets.thy ===== *)
theory Widgets
  imports Clock
begin

text \<open>
  The clock widgets of the dashboard (indexScript.js lines 1 to 25): each
  \<open>display*\<close> function reads the clock and computes the text it writes into one
  element.  The model gives the text as a function of the time value \<open>t\<close> and
  the time-zone offset \<open>tz\<close>.  \<open>toLocaleString('default', ...)\<close> is taken in an
  English locale.
\<close>

text \<open>\<open>displayGreeting\<close>, line 3.\<close>

definition display_greeting :: "int \<Rightarrow> int \<Rightarrow> string" where
  "display_greeting tz t =
     (if get_hours tz t < 12 then ''Good Morning,''
      else if get_hours tz t < 18 then ''Good Afternoon,''
      else ''Good Evening,'')"

text \<open>\<open>displayDayWeek\<close>, line 9: the weekday name of \<open>getDay()\<close>.\<close>

definition weekday_name :: "nat \<Rightarrow> string" where
  "weekday_name d =
     [''Sunday'', ''Monday'', ''Tuesday'', ''Wednesday'', ''Thursday'', ''Friday'', ''Saturday''] ! d"

definition display_day_week :: "int \<Rightarrow> int \<Rightarrow> string" where
  "display_day_week tz t = weekday_name (get_day tz t)"

text \<open>\<open>("0" + n).slice(-2)\<close>, line 14.\<close>

definition two_digits :: "nat \<Rightarrow> string" where
  "two_digits n = slice_last 2 (CHR ''0'' # show_nat n)"

text \<open>\<open>displayHour\<close>, line 14: \<open>HH:MM\<close> of local time.\<close>

definition display_hour :: "int \<Rightarrow> int \<Rightarrow> string" where
  "display_hour tz t = two_digits (get_hours tz t) @ CHR '':'' # two_digits (get_minutes tz t)"

text \<open>\<open>displayMonth\<close>, line 19: the month name of \<open>getMonth()\<close>.\<close>

definition month_name :: "nat \<Rightarrow> string" where
  "month_name m =
     [''January'', ''February'', ''March'', ''April'', ''May'', ''June'', ''July'', ''August'',
      ''September'', ''October'', ''November'', ''December''] ! (m - 1)"

definition display_month :: "int \<Rightarrow> int \<Rightarrow> string" where
  "display_month tz t = month_name (get_month tz t)"

text \<open>\<open>displayTodayDate\<close>, line 24: \<open>textContent = getDate()\<close> prints the number.\<close>

definition display_today_date :: "int \<Rightarrow> int \<Rightarrow> string" where
  "display_today_date tz t = show_nat (get_date tz t)"


section \<open>Lemmas\<close>

lemma read_two_digits: "n < 100 \<Longrightarrow> read_nat (two_digits n) = n"
  by (cases "n < 10") (simp_all add: two_digits_def slice_last_def show_nat_small show_nat_two read_nat_def digit_val_def)

section \<open>Properties\<close>

text \<open>
  C37.  The code's \<open>("0" + n).slice(-2)\<close> is zero-padding to two digits for every
  number below 100, as \<open>padStart(2, "0")\<close> would give.
\<close>

theorem two_digits_pad: "n < 100 \<Longrightarrow> two_digits n = pad_nat 2 n"
  by (cases "n < 10") (simp_all add: two_digits_def pad_nat_def slice_last_def show_nat_small show_nat_two)

text \<open>
  C36.  \<open>displayHour\<close> always writes five characters \<open>HH:MM\<close>, from which the
  local hour and minute read back.
\<close>

theorem display_hour_format:
  "length (display_hour tz t) = 5 \<and> display_hour tz t ! 2 = CHR '':''
   \<and> read_nat (take 2 (display_hour tz t)) = get_hours tz t
   \<and> read_nat (drop 3 (display_hour tz t)) = get_minutes tz t"
proof -
  have h: "get_hours tz t < 100" "get_minutes tz t < 100" using hours_minutes_bound [of tz t] by simp_all
  have l: "length (two_digits n) = 2" if "n < 100" for n
    using that by (cases "n < 10") (simp_all add: two_digits_def show_nat_small show_nat_two)
  show ?thesis using h l [OF h(1)] l [OF h(2)] read_two_digits [OF h(1)] read_two_digits [OF h(2)]
    by (simp add: display_hour_def nth_append)
qed

end
