(* ===== verification/Session.thy ===== *)
theory Session
  imports Stored_Record Widgets
begin

text \<open>
  The dashboard page, src/static/script/indexScript.js: its \<open>DOMContentLoaded\<close>
  handler (lines 29 to 140) is the session cache controller.  It renders the clock
  widgets, reads the session record from \<open>localStorage\<close>, discards it when it has
  no token or was saved on another day, and otherwise asks
  \<open>/api/token-status\<close> whether the token is still valid; the promise chain then
  writes the refreshed record back, renders the shift status and installs the
  click and submit handlers.  The page is a record \<open>dash_page\<close>; each event the
  browser delivers (\<open>dash_event\<close>) is one function on it, and \<open>dash_step\<close>
  dispatches them.  The elements the script writes are the fields of
  \<open>dash_dom\<close>; an element the script does not write keeps the text the server
  rendered.
\<close>

section \<open>Shift status\<close>

datatype shift_status = NotCheckedIn | CheckedIn | CheckedOut

text \<open>The \<open>if (!has_checked_in) ... else if (!has_checked_out) ... else\<close> chain, lines 73, 79 and 87.\<close>

definition shift_status_of :: "jval \<Rightarrow> shift_status" where
  "shift_status_of fresh =
     (if \<not> truthy_opt (field fresh ''has_checked_in'') then NotCheckedIn
      else if \<not> truthy_opt (field fresh ''has_checked_out'') then CheckedIn
      else CheckedOut)"

section \<open>The page\<close>

record dash_dom =
  greeting :: string
  day_week :: string
  current_time :: string
  month_text :: string
  date_month :: string
  vdash_value :: string
  vdash_span :: string
  vdash_color :: string
  button_text :: string
  button_bg :: string
  shift_label :: string
  shift_time :: string
  label_active :: string
  dot_active :: bool
  banner_text :: string
  banner_show :: bool

text \<open>
  \<open>Awaiting tok sd\<close>: the token-status request is in flight; the promise
  callbacks close over \<open>userData.token\<close> and \<open>userData.saved_date\<close>.
\<close>

datatype dash_phase = Loading | Awaiting jval jval | Idle

record dash_page =
  storage :: store
  location :: "string option"
  requests :: "string list"
  dom :: dash_dom
  phase :: dash_phase
  clock_timer :: bool
  logout_handler :: bool
  submit_handler :: "shift_status option"
  pending_posts :: nat
  form_posts :: nat

datatype dash_event =
    DomLoaded int
  | FetchSettled fetch_outcome
  | Tick int
  | ClickButton
  | SubmitTimer

section \<open>DOMContentLoaded\<close>

text \<open>Lines 31 to 36: the widgets, and \<open>setInterval(displayHour, 1000)\<close>.\<close>

definition render_clock :: "int \<Rightarrow> int \<Rightarrow> dash_dom \<Rightarrow> dash_dom" where
  "render_clock tz t d =
     d\<lparr>greeting := display_greeting tz t, day_week := display_day_week tz t,
       current_time := display_hour tz t, month_text := display_month tz t,
       date_month := display_today_date tz t\<rparr>"

text \<open>
  What lines 38 to 58 decide from the stored text.  \<open>JSON.parse\<close> of text that
  is not JSON throws, and so does reading \<open>token\<close> of a parsed \<open>null\<close>; the
  handler has no \<open>try\<close>, so either exception ends it (\<open>BootCrash\<close>).
  \<open>userData.saved_date !== today\<close> is strict: only the string of today's date
  passes.
\<close>

datatype boot =
    NoSession
  | MalformedSession
  | StaleSession
  | BootCrash js_error
  | Validate string jval jval

definition boot_check :: "string \<Rightarrow> string option \<Rightarrow> boot" where
  "boot_check today stored =
     (case stored of
        None \<Rightarrow> NoSession
      | Some s \<Rightarrow>
         (if s = [] then NoSession
          else (case json_parse s of
             None \<Rightarrow> BootCrash SyntaxError
           | Some ud \<Rightarrow>
              (case get_prop ud ''token'' of
                 Inl e \<Rightarrow> BootCrash e
               | Inr tok \<Rightarrow>
                  (case tok of
                     None \<Rightarrow> MalformedSession
                   | Some t \<Rightarrow>
                      (if \<not> truthy t then MalformedSession
                       else if field ud ''saved_date'' \<noteq> Some (JStr today) then StaleSession
                       else Validate (token_status_url (js_string t)) t (JStr today)))))))"

text \<open>The \<open>DOMContentLoaded\<close> handler at time \<open>t\<close> in time zone \<open>tz\<close>.\<close>

definition dash_load :: "int \<Rightarrow> int \<Rightarrow> dash_page \<Rightarrow> dash_page" where
  "dash_load tz t p =
     (let p1 = p\<lparr>dom := render_clock tz t (dom p), clock_timer := True\<rparr>
      in case boot_check (today_str t) (storage p1 user_data) of
           NoSession \<Rightarrow> p1\<lparr>location := Some ''/login'', phase := Idle\<rparr>
         | MalformedSession \<Rightarrow>
             p1\<lparr>storage := (storage p1)(user_data := None), location := Some ''/login'', phase := Idle\<rparr>
         | StaleSession \<Rightarrow>
             p1\<lparr>storage := (storage p1)(user_data := None), location := Some ''/login'', phase := Idle\<rparr>
         | BootCrash e \<Rightarrow> p1\<lparr>phase := Idle\<rparr>
         | Validate url tok sd \<Rightarrow> p1\<lparr>requests := requests p1 @ [url], phase := Awaiting tok sd\<rparr>)"

section \<open>The token-status response\<close>

text \<open>The \<open>.catch\<close> of lines 133 to 136: log, and go to the login page.\<close>

definition dash_fail :: "dash_page \<Rightarrow> dash_page" where
  "dash_fail p = p\<lparr>location := Some ''/login''\<rparr>"

text \<open>
  \<open>freshData.full_name.split(' ')[0] + '.'\<close>, line 68: only a string has
  \<open>split\<close>; on anything else the call throws.
\<close>

definition first_name :: "jval option \<Rightarrow> js_error + string" where
  "first_name v = (case v of Some (JStr s) \<Rightarrow> Inr (split_first (CHR '' '') s @ ''.'') | _ \<Rightarrow> Inl TypeError)"

definition violet :: string where
  "violet = ''hsla(246, 80%, 60%, 1)''"

definition orange :: string where
  "orange = ''#FF7518''"

text \<open>Lines 73 to 100: the shift widgets for each status.\<close>

definition render_status :: "shift_status \<Rightarrow> jval \<Rightarrow> dash_dom \<Rightarrow> dash_dom" where
  "render_status st f d =
     (case st of
        NotCheckedIn \<Rightarrow>
          d\<lparr>button_text := ''Check In'', vdash_color := violet, shift_label := ''READY TO CHECK IN?'',
            label_active := ''Inactive'', dot_active := False\<rparr>
      | CheckedIn \<Rightarrow>
          d\<lparr>button_text := ''Check Out'', button_bg := orange, vdash_color := orange,
            shift_label := ''CHECKED AT'', shift_time := text_content (field f ''checkin_time''),
            label_active := ''Active'', dot_active := True\<rparr>
      | CheckedOut \<Rightarrow>
          d\<lparr>shift_time := text_content (field f ''checkout_time''), shift_label := ''CHECKED OUT AT'',
            label_active := ''Inactive'', button_text := ''Logout'', dot_active := False,
            vdash_color := violet\<rparr>)"

text \<open>
  Lines 62 to 128, the \<open>if (freshData.valid)\<close> branch: the record is written back
  with the cached token and date, then the widgets are filled in; an exception on
  the way (a \<open>full_name\<close> that is not a string) goes to the \<open>.catch\<close> after the
  write.  The checked-out branch installs \<open>button.onclick\<close>; every branch adds the
  submit listener, which closes over the status.
\<close>

definition dash_valid :: "jval \<Rightarrow> jval \<Rightarrow> jval \<Rightarrow> dash_page \<Rightarrow> dash_page" where
  "dash_valid tok sd fresh p =
     (case set_prop fresh ''token'' tok of
        Inl e \<Rightarrow> dash_fail p
      | Inr f1 \<Rightarrow>
         (case set_prop f1 ''saved_date'' sd of
            Inl e \<Rightarrow> dash_fail p
          | Inr f2 \<Rightarrow>
             (let p2 = p\<lparr>storage := (storage p)(user_data \<mapsto> json_stringify f2),
                         dom := (dom p)\<lparr>vdash_value := input_value (field f2 ''vdash'')\<rparr>\<rparr>
              in case first_name (field f2 ''full_name'') of
                   Inl e \<Rightarrow> dash_fail p2
                 | Inr nm \<Rightarrow>
                    (let st = shift_status_of f2
                     in p2\<lparr>dom := render_status st f2 ((dom p2)\<lparr>vdash_span := nm\<rparr>),
                           logout_handler := (logout_handler p2 \<or> st = CheckedOut),
                           submit_handler := Some st\<rparr>))))"

text \<open>
  Lines 58 to 61 and 133: the body is parsed by \<open>response.json()\<close>; a network
  failure, a body that is not JSON, and reading \<open>valid\<close> of \<open>null\<close> all reach the
  \<open>.catch\<close>.  When \<open>valid\<close> is falsy nothing at all happens.
\<close>

definition dash_settle :: "fetch_outcome \<Rightarrow> dash_page \<Rightarrow> dash_page" where
  "dash_settle out p =
     (case phase p of
        Awaiting tok sd \<Rightarrow>
          (let p1 = p\<lparr>phase := Idle\<rparr>
           in case out of
                NetworkError \<Rightarrow> dash_fail p1
              | Body b \<Rightarrow>
                 (case json_parse b of
                    None \<Rightarrow> dash_fail p1
                  | Some fresh \<Rightarrow>
                     (case get_prop fresh ''valid'' of
                        Inl e \<Rightarrow> dash_fail p1
                      | Inr vld \<Rightarrow> (if truthy_opt vld then dash_valid tok sd fresh p1 else p1))))
      | _ \<Rightarrow> p)"

section \<open>User actions and timers\<close>

text \<open>\<open>setInterval(displayHour, 1000)\<close>, line 34.\<close>

definition dash_tick :: "int \<Rightarrow> int \<Rightarrow> dash_page \<Rightarrow> dash_page" where
  "dash_tick tz t p =
     (if clock_timer p then p\<lparr>dom := (dom p)\<lparr>current_time := display_hour tz t\<rparr>\<rparr> else p)"

text \<open>
  The banner text of lines 109 and 113; the source file holds the bytes of
  the party-popper emoji encoded twice in UTF-8 (it reads as "eth, Y-diaeresis,
  Z-caron, per-mille"), which is what the page shows.
\<close>

definition celebration :: string where
  "celebration = map char_of [0xC3, 0xB0, 0xC5, 0xB8, 0xC5, 0xBD, 0xE2, 0x80, 0xB0 :: nat]"

text \<open>
  The submit listener, lines 103 to 128: a banner for the two open states, then
  \<open>form.submit()\<close> after 1200 ms (\<open>pending_posts\<close> counts the scheduled
  timeouts).  Without the listener, submitting posts the form natively.
\<close>

definition dash_submit :: "dash_page \<Rightarrow> dash_page" where
  "dash_submit p =
     (case submit_handler p of
        None \<Rightarrow> p\<lparr>form_posts := Suc (form_posts p)\<rparr>
      | Some st \<Rightarrow>
         (let d = dom p;
              d' = (case st of
                      NotCheckedIn \<Rightarrow> d\<lparr>banner_text := ''Check-in successful! '' @ celebration, banner_show := True\<rparr>
                    | CheckedIn \<Rightarrow> d\<lparr>banner_text := ''Check-Out successful! '' @ celebration, banner_show := True\<rparr>
                    | CheckedOut \<Rightarrow> d)
          in p\<lparr>dom := d', pending_posts := Suc (pending_posts p)\<rparr>))"

text \<open>
  A click on the submit button: the logout handler of lines 95 to 99 cancels the
  submission, clears the record and leaves; otherwise the click submits the form.
  (Pressing Enter in the form clicks its submit button too.)
\<close>

definition dash_click :: "dash_page \<Rightarrow> dash_page" where
  "dash_click p =
     (if logout_handler p then p\<lparr>storage := (storage p)(user_data := None), location := Some ''/login''\<rparr>
      else dash_submit p)"

text \<open>The timeout of lines 123 to 126.\<close>

definition dash_timer :: "dash_page \<Rightarrow> dash_page" where
  "dash_timer p =
     (case pending_posts p of
        0 \<Rightarrow> p
      | Suc k \<Rightarrow> p\<lparr>dom := (dom p)\<lparr>banner_show := False\<rparr>, pending_posts := k, form_posts := Suc (form_posts p)\<rparr>)"

section \<open>Events\<close>

text \<open>\<open>DOMContentLoaded\<close> fires once; a response arrives only for a request in flight.\<close>

fun dash_step :: "int \<Rightarrow> dash_page \<Rightarrow> dash_event \<Rightarrow> dash_page" where
  "dash_step tz p (DomLoaded t) = (if phase p = Loading then dash_load tz t p else p)"
| "dash_step tz p (FetchSettled out) = dash_settle out p"
| "dash_step tz p (Tick t) = dash_tick tz t p"
| "dash_step tz p ClickButton = dash_click p"
| "dash_step tz p SubmitTimer = dash_timer p"

definition dash_run :: "int \<Rightarrow> dash_page \<Rightarrow> dash_event list \<Rightarrow> dash_page" where
  "dash_run tz p es = foldl (dash_step tz) p es"

text \<open>The page as the browser creates it, over the store \<open>ls\<close> and the server's HTML \<open>d\<close>.\<close>

definition dash_init :: "store \<Rightarrow> dash_dom \<Rightarrow> dash_page" where
  "dash_init ls d =
     \<lparr>storage = ls, location = None, requests = [], dom = d, phase = Loading, clock_timer = False,
      logout_handler = False, submit_handler = None, pending_posts = 0, form_posts = 0\<rparr>"

section \<open>Reachable pages\<close>

text \<open>The pages a run of events can produce from a fresh page over the store \<open>ls\<close>.\<close>

inductive dash_reach :: "int \<Rightarrow> store \<Rightarrow> dash_page \<Rightarrow> bool" for tz ls where
  init: "dash_reach tz ls (dash_init ls d)"
| step: "dash_reach tz ls p \<Longrightarrow> dash_reach tz ls (dash_step tz p e)"

text \<open>\<open>url\<close> asks about the token of a record of \<open>ls\<close> saved on the day of some clock reading.\<close>

definition same_day_token :: "store \<Rightarrow> string \<Rightarrow> bool" where
  "same_day_token ls url \<longleftrightarrow>
     (\<exists>s ud tok t. ls user_data = Some s \<and> json_parse s = Some ud \<and> field ud ''token'' = Some tok
        \<and> truthy tok \<and> field ud ''saved_date'' = Some (JStr (today_str t))
        \<and> url = token_status_url (js_string tok))"

definition dash_req_inv :: "store \<Rightarrow> dash_page \<Rightarrow> bool" where
  "dash_req_inv ls p \<longleftrightarrow>
     (phase p = Loading \<longrightarrow> requests p = [] \<and> storage p = ls \<and> \<not> logout_handler p)
     \<and> (requests p = [] \<or> (\<exists>url. requests p = [url] \<and> same_day_token ls url))"

text \<open>While a request is in flight, the token it asks about is a well-formed, truthy value.\<close>

definition awaiting_ok :: "dash_page \<Rightarrow> bool" where
  "awaiting_ok p \<longleftrightarrow> (case phase p of Awaiting tok sd \<Rightarrow> json_wf tok \<and> truthy tok | _ \<Rightarrow> True)"

section \<open>The specification's bootstrap, as an abstract decision\<close>

text \<open>
  Section 4.1 of the specification decides, from the stored record alone, between
  going to the login page, discarding the record and going there, and asking the
  remote authority about the token.  \<open>abs_store\<close> abstracts the stored text to the
  two fields the decision reads; it is undefined (\<open>None\<close>) on a text that is not
  JSON or is \<open>null\<close>, which the specification does not consider.  \<open>boot_action\<close>
  reads the code's outcome as such a decision (a crash is none).
\<close>

datatype session_action = GoLogin | DiscardAndGoLogin | ValidateToken jval

definition spec_bootstrap :: "string \<Rightarrow> (jval option \<times> jval option) option \<Rightarrow> session_action" where
  "spec_bootstrap today r =
     (case r of
        None \<Rightarrow> GoLogin
      | Some (tok, sd) \<Rightarrow>
         (case tok of
            None \<Rightarrow> DiscardAndGoLogin
          | Some t \<Rightarrow> (if \<not> truthy t then DiscardAndGoLogin
                      else if sd \<noteq> Some (JStr today) then DiscardAndGoLogin
                      else ValidateToken t)))"

definition abs_store :: "string option \<Rightarrow> (jval option \<times> jval option) option option" where
  "abs_store stored =
     (case stored of
        None \<Rightarrow> Some None
      | Some s \<Rightarrow>
         (if s = [] then Some None
          else (case json_parse s of
                  None \<Rightarrow> None
                | Some ud \<Rightarrow> (if ud = JNull then None
                              else Some (Some (field ud ''token'', field ud ''saved_date''))))))"

definition boot_action :: "boot \<Rightarrow> session_action option" where
  "boot_action b =
     (case b of
        NoSession \<Rightarrow> Some GoLogin
      | MalformedSession \<Rightarrow> Some DiscardAndGoLogin
      | StaleSession \<Rightarrow> Some DiscardAndGoLogin
      | BootCrash e \<Rightarrow> None
      | Validate url tok sd \<Rightarrow> Some (ValidateToken tok))"

text \<open>What the dashboard may have done to the store: only \<open>user_data\<close> changes,
  and only to be removed or to hold a well-formed object.\<close>

definition dash_store_inv :: "store \<Rightarrow> dash_page \<Rightarrow> bool" where
  "dash_store_inv ls p \<longleftrightarrow>
     (\<forall>k. k \<noteq> user_data \<longrightarrow> storage p k = ls k)
     \<and> (storage p user_data = ls user_data \<or> storage p user_data = None
        \<or> (\<exists>ps. storage p user_data = Some (json_stringify (JObj ps)) \<and> json_wf (JObj ps)))
     \<and> (case phase p of Awaiting tok sd \<Rightarrow> json_wf sd | _ \<Rightarrow> True)"

section \<open>What DOMContentLoaded does with the stored record\<close>

lemma boot_check_falsy_token:
  assumes "json_parse s = Some ud" "ud \<noteq> JNull" "\<not> truthy_opt (field ud ''token'')"
  shows "boot_check today (Some s) = MalformedSession"
  using assms json_parse_nonempty [OF assms(1)]
  by (auto simp: boot_check_def truthy_opt_def split: option.split)

lemma boot_check_stale:
  assumes "json_parse s = Some ud" "ud \<noteq> JNull" "truthy_opt (field ud ''token'')"
    "field ud ''saved_date'' \<noteq> Some (JStr today)"
  shows "boot_check today (Some s) = StaleSession"
  using assms json_parse_nonempty [OF assms(1)]
  by (auto simp: boot_check_def truthy_opt_def split: option.split option.split_asm)

lemma boot_check_validate:
  assumes "json_parse s = Some ud" "ud \<noteq> JNull" "field ud ''token'' = Some tok" "truthy tok"
    "field ud ''saved_date'' = Some (JStr today)"
  shows "boot_check today (Some s) = Validate (token_status_url (js_string tok)) tok (JStr today)"
  using assms json_parse_nonempty [OF assms(1)]
  by (simp add: boot_check_def)

lemma dash_load_discard:
  assumes "boot_check (today_str t) (storage p user_data) \<in> {MalformedSession, StaleSession}"
  shows "dash_load tz t p = p\<lparr>dom := render_clock tz t (dom p), clock_timer := True,
            storage := (storage p)(user_data := None), location := Some ''/login'', phase := Idle\<rparr>"
  using assms by (auto simp: dash_load_def)

text \<open>
  C1.  A stored record whose \<open>saved_date\<close> is not today's date is removed from
  the store and the page goes to \<open>/login\<close>, without a request to the server
  (whether or not the record has a token: a record without one is removed by the
  earlier check of line 43).
\<close>

theorem dash_load_stale_session:
  assumes "storage p user_data = Some s" "json_parse s = Some ud" "ud \<noteq> JNull"
    "field ud ''saved_date'' \<noteq> Some (JStr (today_str t))"
  shows "storage (dash_load tz t p) = (storage p)(user_data := None)
       \<and> location (dash_load tz t p) = Some ''/login''
       \<and> requests (dash_load tz t p) = requests p"
proof -
  have "boot_check (today_str t) (storage p user_data) \<in> {MalformedSession, StaleSession}"
    using assms boot_check_falsy_token [OF assms(2,3)] boot_check_stale [OF assms(2,3)]
    by (cases "truthy_opt (field ud ''token'')") auto
  then show ?thesis by (simp add: dash_load_discard)
qed

text \<open>
  C2.  A stored session record whose \<open>token\<close> is missing or falsy is removed
  from the store and the page goes to \<open>/login\<close>, without a request to the
  server (lines 43 to 47).
\<close>

theorem dash_load_missing_token:
  assumes "storage p user_data = Some s" "json_parse s = Some ud" "ud \<noteq> JNull"
    "\<not> truthy_opt (field ud ''token'')"
  shows "storage (dash_load tz t p) = (storage p)(user_data := None)
       \<and> location (dash_load tz t p) = Some ''/login''
       \<and> requests (dash_load tz t p) = requests p"
  using assms boot_check_falsy_token [OF assms(2-4)] by (simp add: dash_load_discard)

text \<open>
  C3.  A stored record saved today with a truthy token is kept as it is and is
  validated: the page issues exactly one request, to the token-status URL of that
  token, and waits for the answer with the token and the date in its closure
  (lines 49 to 58).
\<close>

theorem dash_load_fresh_session:
  assumes "storage p user_data = Some s" "json_parse s = Some ud" "ud \<noteq> JNull"
    "field ud ''token'' = Some tok" "truthy tok" "field ud ''saved_date'' = Some (JStr (today_str t))"
  shows "storage (dash_load tz t p) = storage p
       \<and> location (dash_load tz t p) = location p
       \<and> requests (dash_load tz t p) = requests p @ [token_status_url (js_string tok)]
       \<and> phase (dash_load tz t p) = Awaiting tok (JStr (today_str t))"
  using assms boot_check_validate [OF assms(2-6)] by (simp add: dash_load_def)

text \<open>
  C16.  With no record in the store (or an empty string, which is falsy), the page
  goes to \<open>/login\<close> and touches neither the store nor the network (line 139).
\<close>

theorem dash_load_no_session:
  assumes "storage p user_data = None \<or> storage p user_data = Some []"
  shows "storage (dash_load tz t p) = storage p
       \<and> location (dash_load tz t p) = Some ''/login''
       \<and> requests (dash_load tz t p) = requests p"
  using assms by (auto simp: dash_load_def boot_check_def)


text \<open>
  C17.  A failed request sends the page to \<open>/login\<close> but leaves the stored record
  in place: the \<open>.catch\<close> of lines 133 to 136 does not remove it.
\<close>

theorem dash_settle_network_error:
  assumes "phase p = Awaiting tok sd"
  shows "dash_settle NetworkError p = p\<lparr>phase := Idle, location := Some ''/login''\<rparr>"
  using assms by (simp add: dash_settle_def dash_fail_def)

text \<open>
  C18.  An answer that parses to a non-null value whose \<open>valid\<close> is falsy changes
  nothing but the pending state: no redirect, no removal, no widgets, no handlers
  (the \<open>if (freshData.valid)\<close> of line 61 has no \<open>else\<close>).
\<close>

theorem dash_settle_invalid:
  assumes "phase p = Awaiting tok sd" "json_parse b = Some fresh" "fresh \<noteq> JNull"
    "\<not> truthy_opt (field fresh ''valid'')"
  shows "dash_settle (Body b) p = p\<lparr>phase := Idle\<rparr>"
  using assms by (simp add: dash_settle_def)

lemma dash_settle_valid:
  assumes "phase p = Awaiting tok sd" "json_parse b = Some fresh" "truthy_opt (field fresh ''valid'')"
  shows "dash_settle (Body b) p = dash_valid tok sd fresh (p\<lparr>phase := Idle\<rparr>)"
proof -
  from assms(3) obtain ps where "fresh = JObj ps" using truthy_field_JObj by blast
  with assms show ?thesis by (simp add: dash_settle_def)
qed

lemma dash_valid_storage:
  "storage (dash_valid tok sd (JObj ps) p) = (storage p)(user_data \<mapsto> json_stringify (written_record tok sd ps))"
  by (simp add: dash_valid_def written_record_def dash_fail_def Let_def split: sum.split)

lemma dash_valid_name_crash:
  assumes "\<forall>s. field (written_record tok sd ps) ''full_name'' \<noteq> Some (JStr s)"
  shows "location (dash_valid tok sd (JObj ps) p) = Some ''/login''"
  using assms by (auto simp: dash_valid_def written_record_def dash_fail_def first_name_def Let_def
      split: sum.split option.split jval.split)

lemma dash_valid_rendered:
  assumes "field (written_record tok sd ps) ''full_name'' = Some (JStr nm)"
  shows "location (dash_valid tok sd (JObj ps) p) = location p
       \<and> submit_handler (dash_valid tok sd (JObj ps) p) = Some (shift_status_of (written_record tok sd ps))
       \<and> logout_handler (dash_valid tok sd (JObj ps) p)
           = (logout_handler p \<or> shift_status_of (written_record tok sd ps) = CheckedOut)
       \<and> dom (dash_valid tok sd (JObj ps) p)
           = render_status (shift_status_of (written_record tok sd ps)) (written_record tok sd ps)
               ((dom p)\<lparr>vdash_value := input_value (field (written_record tok sd ps) ''vdash''),
                        vdash_span := split_first (CHR '' '') nm @ ''.''\<rparr>)"
  using assms by (simp add: dash_valid_def written_record_def first_name_def Let_def)

lemma shift_status_of_bools:
  assumes "field f ''has_checked_in'' = Some (JBool i)" "field f ''has_checked_out'' = Some (JBool co)"
  shows "shift_status_of f = (if \<not> i then NotCheckedIn else if \<not> co then CheckedIn else CheckedOut)"
  using assms by (simp add: shift_status_of_def)

lemma render_status_button:
  "button_text (render_status st f d) =
     (case st of NotCheckedIn \<Rightarrow> ''Check In'' | CheckedIn \<Rightarrow> ''Check Out'' | CheckedOut \<Rightarrow> ''Logout'')"
  by (cases st) (simp_all add: render_status_def)

text \<open>
  C5.  On a valid answer whose \<open>has_checked_in\<close> and \<open>has_checked_out\<close> are
  booleans, the page shows the primary action of the spec's table (Check In, Check
  Out, Logout), installs the logout handler exactly in the checked-out state, and
  the submit listener closes over the tri-state status; the combination
  checked-out without checked-in falls back to not-checked-in, silently
  (lines 73 to 103).
\<close>

theorem dash_settle_status_table:
  assumes "phase p = Awaiting tok sd" "json_parse b = Some (JObj ps)" "truthy_opt (map_of ps ''valid'')"
    "map_of ps ''full_name'' = Some (JStr nm)"
    "map_of ps ''has_checked_in'' = Some (JBool i)" "map_of ps ''has_checked_out'' = Some (JBool co)"
  shows "button_text (dom (dash_settle (Body b) p)) = (if \<not> i then ''Check In'' else if \<not> co then ''Check Out'' else ''Logout'')
       \<and> submit_handler (dash_settle (Body b) p) = Some (if \<not> i then NotCheckedIn else if \<not> co then CheckedIn else CheckedOut)
       \<and> logout_handler (dash_settle (Body b) p) = (logout_handler p \<or> i \<and> co)
       \<and> location (dash_settle (Body b) p) = location p"
proof -
  let ?w = "written_record tok sd ps"
  have st: "shift_status_of ?w = (if \<not> i then NotCheckedIn else if \<not> co then CheckedIn else CheckedOut)"
    using assms(5,6) by (intro shift_status_of_bools) (simp_all add: written_record_field)
  have nm: "field ?w ''full_name'' = Some (JStr nm)"
    using assms(4) by (simp add: written_record_field)
  have "dash_settle (Body b) p = dash_valid tok sd (JObj ps) (p\<lparr>phase := Idle\<rparr>)"
    using assms(1-3) by (simp add: dash_settle_valid)
  with dash_valid_rendered [OF nm, of "p\<lparr>phase := Idle\<rparr>"] st show ?thesis
    by (auto simp: render_status_button)
qed

text \<open>
  C19.  A valid answer whose \<open>full_name\<close> is not a string writes the refreshed
  record to the store and then sends the page to \<open>/login\<close>: the
  \<open>TypeError\<close> of line 68 reaches the \<open>.catch\<close> after the write of line 64.
\<close>

theorem dash_settle_name_crash:
  assumes "phase p = Awaiting tok sd" "json_parse b = Some (JObj ps)" "truthy_opt (map_of ps ''valid'')"
    "\<forall>s. map_of ps ''full_name'' \<noteq> Some (JStr s)"
  shows "storage (dash_settle (Body b) p) = (storage p)(user_data \<mapsto> json_stringify (written_record tok sd ps))
       \<and> location (dash_settle (Body b) p) = Some ''/login''"
proof -
  have "dash_settle (Body b) p = dash_valid tok sd (JObj ps) (p\<lparr>phase := Idle\<rparr>)"
    using assms(1-3) by (simp add: dash_settle_valid)
  moreover have "\<forall>s. field (written_record tok sd ps) ''full_name'' \<noteq> Some (JStr s)"
    using assms(4) by (simp add: written_record_field)
  ultimately show ?thesis by (simp add: dash_valid_storage dash_valid_name_crash)
qed

text \<open>
  C26.  In the checked-out state the button logs out: it clears the record, goes
  to \<open>/login\<close> and cancels the form submission (lines 95 to 99).
\<close>

theorem dash_click_logout:
  assumes "logout_handler p"
  shows "storage (dash_click p) = (storage p)(user_data := None) \<and> location (dash_click p) = Some ''/login''
       \<and> form_posts (dash_click p) = form_posts p \<and> pending_posts (dash_click p) = pending_posts p"
  using assms by (simp add: dash_click_def)

lemma dash_run_Cons [simp]: "dash_run tz p (e # es) = dash_run tz (dash_step tz p e) es"
  by (simp add: dash_run_def)

lemma dash_run_Nil [simp]: "dash_run tz p [] = p"
  by (simp add: dash_run_def)

text \<open>
  C27.  In the two open states a click shows the success banner and schedules the
  form submission; when the 1200 ms timeout fires the form is posted once and the
  banner hidden (lines 103 to 126).
\<close>

theorem dash_submit_then_post:
  assumes "\<not> logout_handler p" "submit_handler p = Some st" "st \<noteq> CheckedOut"
  shows "banner_show (dom (dash_step tz p ClickButton))
       \<and> form_posts (dash_step tz p ClickButton) = form_posts p
       \<and> form_posts (dash_run tz p [ClickButton, SubmitTimer]) = Suc (form_posts p)
       \<and> \<not> banner_show (dom (dash_run tz p [ClickButton, SubmitTimer]))"
  using assms by (cases st) (simp_all add: dash_click_def dash_submit_def dash_timer_def)

text \<open>
  C28.  Nothing guards against a second click while the first submission is
  pending: two clicks post the form twice (a check-in or check-out sent twice).
\<close>

theorem dash_double_submit:
  assumes "\<not> logout_handler p" "submit_handler p = Some st" "pending_posts p = 0"
  shows "form_posts (dash_run tz p [ClickButton, ClickButton, SubmitTimer, SubmitTimer]) = form_posts p + 2"
  using assms by (cases st) (simp_all add: dash_click_def dash_submit_def dash_timer_def Let_def)

lemma boot_check_ValidateD:
  assumes "boot_check today stored = Validate url tok sd"
  shows "\<exists>s ud. stored = Some s \<and> json_parse s = Some ud \<and> field ud ''token'' = Some tok \<and> truthy tok
     \<and> field ud ''saved_date'' = Some (JStr today) \<and> sd = JStr today \<and> url = token_status_url (js_string tok)"
  using assms
  by (auto simp: boot_check_def field_def get_prop_def split: option.splits if_splits sum.splits jval.splits)

lemma dash_load_requests:
  "requests (dash_load tz t p) = requests p
   \<or> (\<exists>url tok sd. boot_check (today_str t) (storage p user_data) = Validate url tok sd
        \<and> requests (dash_load tz t p) = requests p @ [url])"
  by (auto simp: dash_load_def Let_def split: boot.split)

lemma dash_load_phase: "phase (dash_load tz t p) \<noteq> Loading"
  by (simp add: dash_load_def Let_def split: boot.split)

lemma dash_valid_frame:
  "phase (dash_valid tok sd f p) = phase p \<and> requests (dash_valid tok sd f p) = requests p"
  by (simp add: dash_valid_def dash_fail_def Let_def split: sum.split)

lemma dash_settle_frame:
  "requests (dash_settle out p) = requests p
   \<and> phase (dash_settle out p) = (if phase p = Loading then Loading else Idle)"
  by (auto simp: dash_settle_def dash_fail_def dash_valid_frame Let_def
      split: dash_phase.split fetch_outcome.split option.split sum.split)

lemma dash_step_keeps_requests:
  "phase p \<noteq> Loading \<Longrightarrow> requests (dash_step tz p e) = requests p \<and> phase (dash_step tz p e) \<noteq> Loading"
  by (cases e) (auto simp: dash_settle_frame dash_tick_def dash_click_def dash_submit_def dash_timer_def
      Let_def split: option.split nat.split)

lemma dash_step_loading:
  assumes "phase p = Loading" "\<not> logout_handler p"
  shows "phase (dash_step tz p e) = Loading \<longrightarrow>
     requests (dash_step tz p e) = requests p \<and> storage (dash_step tz p e) = storage p
     \<and> \<not> logout_handler (dash_step tz p e)"
  using assms
  by (cases e) (auto simp: dash_load_phase dash_settle_def dash_tick_def dash_click_def dash_submit_def
      dash_timer_def Let_def split: option.split nat.split)

lemma dash_req_inv_step: "dash_req_inv ls p \<Longrightarrow> dash_req_inv ls (dash_step tz p e)"
proof (cases "phase p = Loading")
  case False
  assume "dash_req_inv ls p"
  with False dash_step_keeps_requests [OF False] show ?thesis
    by (simp add: dash_req_inv_def)
next
  case True
  assume inv: "dash_req_inv ls p"
  with True have p: "requests p = []" "storage p = ls" "\<not> logout_handler p"
    by (simp_all add: dash_req_inv_def)
  show ?thesis
  proof (cases e)
    case (DomLoaded t)
    consider "requests (dash_load tz t p) = requests p"
      | url tok sd where "boot_check (today_str t) (ls user_data) = Validate url tok sd"
          "requests (dash_load tz t p) = [url]"
      using dash_load_requests [of tz t p] p by auto
    then show ?thesis
    proof cases
      case 1
      with DomLoaded True p show ?thesis by (simp add: dash_req_inv_def dash_load_phase)
    next
      case 2
      then have "same_day_token ls url"
        using boot_check_ValidateD [OF 2(1)] by (auto simp: same_day_token_def)
      with 2 DomLoaded True show ?thesis by (simp add: dash_req_inv_def dash_load_phase)
    qed
  next
    case (FetchSettled out)
    with True inv show ?thesis by (simp add: dash_req_inv_def dash_settle_def)
  next
    case (Tick t)
    with inv show ?thesis by (simp add: dash_req_inv_def dash_tick_def)
  next
    case ClickButton
    with inv p show ?thesis
      by (simp add: dash_req_inv_def dash_click_def dash_submit_def Let_def split: option.split)
  next
    case SubmitTimer
    with inv show ?thesis by (simp add: dash_req_inv_def dash_timer_def split: nat.split)
  qed
qed

lemma dash_reach_inv: "dash_reach tz ls p \<Longrightarrow> dash_req_inv ls p"
proof (induction rule: dash_reach.induct)
  case (init d)
  show ?case by (simp add: dash_req_inv_def dash_init_def)
next
  case (step p e)
  from step.IH show ?case by (rule dash_req_inv_step)
qed



section \<open>The record written back\<close>

lemma dash_load_awaiting:
  "phase (dash_load tz t p) = Awaiting tok sd \<Longrightarrow>
   \<exists>url. boot_check (today_str t) (storage p user_data) = Validate url tok sd"
  by (auto simp: dash_load_def Let_def split: boot.splits)


lemma awaiting_ok_step:
  assumes "awaiting_ok p"
  shows "awaiting_ok (dash_step tz p e)"
proof (cases e)
  case (DomLoaded t)
  show ?thesis
  proof (cases "phase (dash_step tz p e)")
    case (Awaiting tok sd)
    show ?thesis
    proof (cases "phase p = Loading")
      case True
      with DomLoaded Awaiting obtain url where
        "boot_check (today_str t) (storage p user_data) = Validate url tok sd"
        using dash_load_awaiting by fastforce
      from boot_check_ValidateD [OF this] obtain s ud where
        "json_parse s = Some ud" "field ud ''token'' = Some tok" "truthy tok" by blast
      then have "json_wf tok" "truthy tok" using json_parse_wf json_wf_field by blast+
      with Awaiting show ?thesis by (simp add: awaiting_ok_def)
    next
      case False
      with DomLoaded assms show ?thesis by simp
    qed
  qed (simp_all add: awaiting_ok_def)
next
  case (FetchSettled out)
  then show ?thesis using dash_settle_frame [of out p] by (simp add: awaiting_ok_def)
qed (use assms in \<open>simp_all add: awaiting_ok_def dash_tick_def dash_click_def dash_submit_def
      dash_timer_def Let_def split: option.split nat.split\<close>)

lemma dash_reach_awaiting: "dash_reach tz ls p \<Longrightarrow> awaiting_ok p"
proof (induction rule: dash_reach.induct)
  case (init d)
  show ?case by (simp add: awaiting_ok_def dash_init_def)
next
  case (step p e)
  from step.IH show ?case by (rule awaiting_ok_step)
qed

text \<open>
  C4.  After a valid token-status response, the dashboard stores a record that
  \<open>JSON.parse\<close> reads back as an object with the cached token and date and
  every other field of the response; a reload on the same day validates the same
  token again.
\<close>

theorem dash_settle_writeback:
  assumes "dash_reach tz ls p" "phase p = Awaiting tok (JStr d)" "json_parse b = Some fresh"
    "truthy_opt (field fresh ''valid'')"
  shows "\<exists>w. storage (dash_settle (Body b) p) user_data = Some (json_stringify w)
     \<and> json_parse (json_stringify w) = Some w
     \<and> field w ''token'' = Some tok \<and> field w ''saved_date'' = Some (JStr d)
     \<and> (\<forall>k. k \<noteq> ''token'' \<longrightarrow> k \<noteq> ''saved_date'' \<longrightarrow> field w k = field fresh k)
     \<and> boot_check d (Some (json_stringify w)) = Validate (token_status_url (js_string tok)) tok (JStr d)"
proof -
  from assms(4) obtain ps where fresh: "fresh = JObj ps" using truthy_field_JObj by blast
  let ?w = "written_record tok (JStr d) ps"
  have tok: "json_wf tok" "truthy tok"
    using dash_reach_awaiting [OF assms(1)] assms(2) by (simp_all add: awaiting_ok_def)
  have rt: "json_parse (json_stringify ?w) = Some ?w"
    using assms(3) fresh tok(1) by (intro written_record_parse) simp_all
  have st: "storage (dash_settle (Body b) p) user_data = Some (json_stringify ?w)"
    using dash_settle_valid [OF assms(2,3,4)] fresh by (simp add: dash_valid_storage)
  have keep: "\<forall>k. k \<noteq> ''token'' \<longrightarrow> k \<noteq> ''saved_date'' \<longrightarrow> field ?w k = field fresh k"
    using fresh by (simp add: written_record_field)
  have "boot_check d (Some (json_stringify ?w)) = Validate (token_status_url (js_string tok)) tok (JStr d)"
    by (rule boot_check_validate [OF rt]) (simp_all add: tok written_record_def)
  with st rt keep show ?thesis by (intro exI [of _ ?w]) simp
qed


section \<open>Refinement, progress and the store\<close>

text \<open>
  C11.  The code's session check refines the specification's bootstrap: on every
  stored value the specification covers, the code takes the decision section 4.1
  prescribes.
\<close>

theorem boot_check_refines:
  assumes "abs_store stored = Some r"
  shows "boot_action (boot_check today stored) = Some (spec_bootstrap today r)"
  using assms
  by (auto simp: abs_store_def boot_check_def boot_action_def spec_bootstrap_def
      split: option.splits if_splits sum.splits)


lemma dash_settle_storage:
  "storage (dash_settle out p) = storage p
   \<or> (\<exists>tok sd b ps. phase p = Awaiting tok sd \<and> out = Body b \<and> json_parse b = Some (JObj ps)
        \<and> storage (dash_settle out p) = (storage p)(user_data \<mapsto> json_stringify (written_record tok sd ps)))"
proof (cases "\<exists>tok sd b fresh. phase p = Awaiting tok sd \<and> out = Body b \<and> json_parse b = Some fresh
                 \<and> truthy_opt (field fresh ''valid'')")
  case True
  then obtain tok sd b fresh where a: "phase p = Awaiting tok sd" "out = Body b" "json_parse b = Some fresh"
    "truthy_opt (field fresh ''valid'')" by blast
  from a(4) obtain ps where "fresh = JObj ps" using truthy_field_JObj by blast
  with a show ?thesis by (simp add: dash_settle_valid dash_valid_storage)
next
  case False
  then have "storage (dash_settle out p) = storage p"
    by (auto simp: dash_settle_def dash_fail_def Let_def get_prop_def field_def
        split: dash_phase.split fetch_outcome.split option.split sum.split jval.splits)
  then show ?thesis by blast
qed

lemma dash_load_storage:
  "storage (dash_load tz t p) = storage p \<or> storage (dash_load tz t p) = (storage p)(user_data := None)"
  by (simp add: dash_load_def Let_def split: boot.split)

lemma dash_store_inv_load:
  assumes "dash_store_inv ls p"
  shows "dash_store_inv ls (dash_load tz t p)"
proof -
  have ph: "case phase (dash_load tz t p) of Awaiting tok sd \<Rightarrow> json_wf sd | _ \<Rightarrow> True"
  proof (cases "phase (dash_load tz t p)")
    case (Awaiting tok sd)
    then obtain url where "boot_check (today_str t) (storage p user_data) = Validate url tok sd"
      using dash_load_awaiting by blast
    from boot_check_ValidateD [OF this] Awaiting show ?thesis by auto
  qed simp_all
  from dash_load_storage [of tz t p] assms ph show ?thesis
    unfolding dash_store_inv_def by auto
qed

lemma dash_store_inv_settle:
  assumes "dash_store_inv ls p" "awaiting_ok p"
  shows "dash_store_inv ls (dash_settle out p)"
proof -
  have ph: "case phase (dash_settle out p) of Awaiting tok sd \<Rightarrow> json_wf sd | _ \<Rightarrow> True"
    using dash_settle_frame [of out p] by simp
  from dash_settle_storage [of out p] show ?thesis
  proof (elim disjE exE conjE)
    assume "storage (dash_settle out p) = storage p"
    with assms(1) ph show ?thesis unfolding dash_store_inv_def by simp
  next
    fix tok sd b ps
    assume a: "phase p = Awaiting tok sd" "json_parse b = Some (JObj ps)"
      "storage (dash_settle out p) = (storage p)(user_data \<mapsto> json_stringify (written_record tok sd ps))"
    have "json_wf tok" using assms(2) a(1) by (simp add: awaiting_ok_def)
    moreover have "json_wf sd" using assms(1) a(1) by (simp add: dash_store_inv_def)
    ultimately have "json_wf (written_record tok sd ps)"
      using json_parse_wf [OF a(2)] by (intro written_record_wf)
    with assms(1) ph a(3) show ?thesis unfolding dash_store_inv_def written_record_def by auto
  qed
qed

lemma dash_store_inv_step:
  assumes "dash_store_inv ls p" "awaiting_ok p"
  shows "dash_store_inv ls (dash_step tz p e)"
proof (cases e)
  case (DomLoaded t)
  with assms(1) show ?thesis by (simp add: dash_store_inv_load)
next
  case (FetchSettled out)
  with assms show ?thesis by (simp add: dash_store_inv_settle)
qed (use assms(1) in \<open>auto simp: dash_store_inv_def dash_tick_def dash_click_def dash_submit_def
      dash_timer_def Let_def split: option.split nat.split\<close>)

lemma dash_reach_store_inv: "dash_reach tz ls p \<Longrightarrow> dash_store_inv ls p"
proof (induction rule: dash_reach.induct)
  case (init d)
  show ?case by (simp add: dash_store_inv_def dash_init_def)
next
  case (step p e)
  then show ?case using dash_reach_awaiting by (blast intro: dash_store_inv_step)
qed

text \<open>
  C12.  On every reachable dashboard the store differs from the initial one at most
  in \<open>user_data\<close>, which is unchanged, removed, or the JSON text of an object
  that \<open>JSON.parse\<close> reads back exactly.
\<close>

theorem dash_reach_store:
  assumes "dash_reach tz ls p"
  shows "(\<forall>k. k \<noteq> user_data \<longrightarrow> storage p k = ls k)
     \<and> (storage p user_data = ls user_data \<or> storage p user_data = None
        \<or> (\<exists>w. storage p user_data = Some (json_stringify w) \<and> json_parse (json_stringify w) = Some w
               \<and> (\<exists>ps. w = JObj ps)))"
  using dash_reach_store_inv [OF assms] json_parse_stringify unfolding dash_store_inv_def by blast

end
