(* ===== verification/Login.thy ===== *)
theory Login
  imports Stored_Record Clock
begin

text \<open>
  The login page, loginScript.js.  Its \<open>DOMContentLoaded\<close> handler attaches a
  click listener to every \<open>.toggle-password\<close> icon (lines 7 to 16) and a submit
  listener to the login form (lines 20 to 50).  The submit listener trims the
  token field, refuses an empty token with an alert, and otherwise asks
  \<open>/api/token-status\<close> about the token; a valid answer is stored as the session
  record with the token and today's date, and the page goes to \<open>/\<close>.

  The page is a record \<open>login_page\<close>; \<open>login_step\<close> applies one event.  Every
  fetch the page starts is an entry of \<open>calls\<close>: the token its callbacks close
  over and whether its promise chain has already run.  A response can arrive for
  any call in flight, in any order (\<open>LoginSettled i\<close> for the \<open>i\<close>-th call,
  counting from 0), and its callbacks run to completion.  Setting
  \<open>window.location.href\<close> starts a navigation but does not stop the script, so
  responses still arrive afterwards.
\<close>

record login_page =
  lstorage :: store
  llocation :: "string option"
  lready :: bool
  token_input :: string
  input_type :: string
  toggle_active :: "bool list"
  lrequests :: "string list"
  calls :: "(string \<times> bool) list"
  alerts :: "string list"
  native_submits :: nat

datatype login_event =
    LoginLoaded
  | EditToken string
  | ToggleClick
  | LoginSubmit
  | LoginSettled nat fetch_outcome int

text \<open>
  A click on a toggle icon, lines 8 to 15: the field switches between
  \<open>password\<close> and \<open>text\<close> (any other type becomes \<open>password\<close>) and every icon
  toggles its \<open>is-active\<close> class.  Before the handler is attached a click does
  nothing.
\<close>

definition login_toggle :: "login_page \<Rightarrow> login_page" where
  "login_toggle p =
     (if lready p
      then p\<lparr>input_type := (if input_type p = ''password'' then ''text'' else ''password''),
             toggle_active := map Not (toggle_active p)\<rparr>
      else p)"

text \<open>
  The submit listener up to the fetch, lines 20 to 33.  Before the listener is
  attached the browser submits the form itself (\<open>native_submits\<close>).
\<close>

definition login_submit :: "login_page \<Rightarrow> login_page" where
  "login_submit p =
     (if \<not> lready p then p\<lparr>native_submits := Suc (native_submits p)\<rparr>
      else (let token = js_trim (token_input p)
            in if token = [] then p\<lparr>alerts := alerts p @ [''Please enter your personal token!'']\<rparr>
               else p\<lparr>lrequests := lrequests p @ [token_status_url token],
                      calls := calls p @ [(token, False)]\<rparr>))"

text \<open>The \<open>.catch\<close> of lines 46 to 49.\<close>

definition login_error :: "login_page \<Rightarrow> login_page" where
  "login_error p = p\<lparr>alerts := alerts p @ [''An error occurred. Please try again later.'']\<rparr>"

text \<open>
  The callbacks of lines 34 to 49 for the call that closed over \<open>token\<close>, run at
  time \<open>now\<close>: a network failure, a body that is not JSON and reading
  \<open>valid\<close> of \<open>null\<close> reach the \<open>.catch\<close>; a falsy \<open>valid\<close> gives the
  bad-token alert; otherwise \<open>token\<close> and \<open>saved_date\<close> are set on the answer,
  which is stored, and the page goes to \<open>/\<close>.
\<close>

definition login_response :: "string \<Rightarrow> int \<Rightarrow> fetch_outcome \<Rightarrow> login_page \<Rightarrow> login_page" where
  "login_response token now out p =
     (case out of
        NetworkError \<Rightarrow> login_error p
      | Body b \<Rightarrow>
         (case json_parse b of
            None \<Rightarrow> login_error p
          | Some data \<Rightarrow>
             (case get_prop data ''valid'' of
                Inl e \<Rightarrow> login_error p
              | Inr vld \<Rightarrow>
                 (if truthy_opt vld then
                    (case set_prop data ''token'' (JStr token) of
                       Inl e \<Rightarrow> login_error p
                     | Inr d1 \<Rightarrow>
                        (case set_prop d1 ''saved_date'' (JStr (today_str now)) of
                           Inl e \<Rightarrow> login_error p
                         | Inr d2 \<Rightarrow>
                            p\<lparr>lstorage := (lstorage p)(user_data \<mapsto> json_stringify d2),
                              llocation := Some ''/''\<rparr>))
                  else p\<lparr>alerts := alerts p @ [''Bad token! Try again.'']\<rparr>))))"

text \<open>The answer to the \<open>i\<close>-th call arrives at time \<open>now\<close>; it is taken only once.\<close>

definition login_settle :: "nat \<Rightarrow> fetch_outcome \<Rightarrow> int \<Rightarrow> login_page \<Rightarrow> login_page" where
  "login_settle i out now p =
     (if i < length (calls p) \<and> \<not> snd (calls p ! i)
      then login_response (fst (calls p ! i)) now out (p\<lparr>calls := (calls p)[i := (fst (calls p ! i), True)]\<rparr>)
      else p)"

fun login_step :: "login_page \<Rightarrow> login_event \<Rightarrow> login_page" where
  "login_step p LoginLoaded = p\<lparr>lready := True\<rparr>"
| "login_step p (EditToken v) = p\<lparr>token_input := v\<rparr>"
| "login_step p ToggleClick = login_toggle p"
| "login_step p LoginSubmit = login_submit p"
| "login_step p (LoginSettled i out now) = login_settle i out now p"

definition login_run :: "login_page \<Rightarrow> login_event list \<Rightarrow> login_page" where
  "login_run p es = foldl login_step p es"

text \<open>The page as loaded over the store \<open>ls\<close>, with the icons' initial classes \<open>icons\<close>.\<close>

definition login_init :: "store \<Rightarrow> bool list \<Rightarrow> login_page" where
  "login_init ls icons =
     \<lparr>lstorage = ls, llocation = None, lready = False, token_input = [], input_type = ''password'',
      toggle_active = icons, lrequests = [], calls = [], alerts = [], native_submits = 0\<rparr>"

inductive login_reach :: "store \<Rightarrow> login_page \<Rightarrow> bool" for ls where
  init: "login_reach ls (login_init ls icons)"
| step: "login_reach ls p \<Longrightarrow> login_reach ls (login_step p e)"


section \<open>Invariant of the login page\<close>

text \<open>A stored text that parses as a session record the login page writes.\<close>

definition stored_session_ok :: "string \<Rightarrow> bool" where
  "stored_session_ok s \<longleftrightarrow>
     (\<exists>w tok t. json_parse s = Some w \<and> field w ''token'' = Some (JStr tok) \<and> tok \<noteq> []
        \<and> js_trim tok = tok \<and> field w ''saved_date'' = Some (JStr (today_str t)))"

definition login_inv :: "store \<Rightarrow> login_page \<Rightarrow> bool" where
  "login_inv ls p \<longleftrightarrow>
     (\<forall>k. k \<noteq> user_data \<longrightarrow> lstorage p k = ls k)
     \<and> (lstorage p user_data = ls user_data \<or> (\<exists>s. lstorage p user_data = Some s \<and> stored_session_ok s))
     \<and> (\<forall>t \<in> set (map fst (calls p)). t \<noteq> [] \<and> js_trim t = t)
     \<and> lrequests p = map token_status_url (map fst (calls p))"

section \<open>The callbacks\<close>

lemma login_response_valid:
  assumes "json_parse b = Some (JObj ps)" "truthy_opt (map_of ps ''valid'')"
  shows "login_response tok now (Body b) p =
     p\<lparr>lstorage := (lstorage p)(user_data \<mapsto> json_stringify (written_record (JStr tok) (JStr (today_str now)) ps)),
       llocation := Some ''/''\<rparr>"
  using assms by (simp add: login_response_def written_record_def)

lemma login_response_invalid:
  assumes "json_parse b = Some data" "data \<noteq> JNull" "\<not> truthy_opt (field data ''valid'')"
  shows "login_response tok now (Body b) p = p\<lparr>alerts := alerts p @ [''Bad token! Try again.'']\<rparr>"
  using assms by (simp add: login_response_def)

lemma login_response_error:
  assumes "out = NetworkError \<or> (\<exists>b. out = Body b \<and> json_parse b \<in> {None, Some JNull})"
  shows "login_response tok now out p = login_error p"
  using assms by (auto simp: login_response_def)

lemma login_response_cases:
  "login_response tok now out p = login_error p
   \<or> login_response tok now out p = p\<lparr>alerts := alerts p @ [''Bad token! Try again.'']\<rparr>
   \<or> (\<exists>b ps. out = Body b \<and> json_parse b = Some (JObj ps) \<and> truthy_opt (map_of ps ''valid'')
        \<and> login_response tok now out p =
            p\<lparr>lstorage := (lstorage p)(user_data \<mapsto> json_stringify (written_record (JStr tok) (JStr (today_str now)) ps)),
              llocation := Some ''/''\<rparr>)"
  by (auto simp: login_response_def written_record_def set_prop_def field_def
      split: fetch_outcome.split option.split sum.split jval.splits)

lemma login_settle_valid:
  assumes "i < length (calls p)" "calls p ! i = (tok, False)" "json_parse b = Some (JObj ps)"
    "truthy_opt (map_of ps ''valid'')"
  shows "lstorage (login_settle i (Body b) now p)
     = (lstorage p)(user_data \<mapsto> json_stringify (written_record (JStr tok) (JStr (today_str now)) ps))"
  using assms by (simp add: login_settle_def login_response_valid)

section \<open>Reachable login pages\<close>

lemma login_valid_record_ok:
  assumes "json_parse b = Some (JObj ps)" "tok \<noteq> []" "js_trim tok = tok"
  shows "stored_session_ok (json_stringify (written_record (JStr tok) (JStr (today_str now)) ps))"
  using written_record_parse [OF assms(1)] assms(2,3) unfolding stored_session_ok_def by fastforce

lemma login_response_inv:
  assumes "login_inv ls p" "tok \<noteq> []" "js_trim tok = tok"
  shows "login_inv ls (login_response tok now out p)"
  using login_response_cases [of tok now out p]
proof (elim disjE exE conjE)
  fix b ps
  assume "json_parse b = Some (JObj ps)" "login_response tok now out p =
      p\<lparr>lstorage := (lstorage p)(user_data \<mapsto> json_stringify (written_record (JStr tok) (JStr (today_str now)) ps)),
        llocation := Some ''/''\<rparr>"
  with assms show ?thesis by (simp add: login_inv_def login_valid_record_ok)
qed (use assms in \<open>simp_all add: login_inv_def login_error_def\<close>)

lemma map_fst_mark:
  assumes "i < length cs"
  shows "map fst (cs[i := (fst (cs ! i), b)]) = map fst cs"
proof -
  have "map fst (cs[i := (fst (cs ! i), b)]) = (map fst cs)[i := map fst cs ! i]"
    using assms by (simp add: map_update)
  then show ?thesis by simp
qed

lemma login_settle_inv:
  assumes "login_inv ls p"
  shows "login_inv ls (login_settle i out now p)"
proof (cases "i < length (calls p) \<and> \<not> snd (calls p ! i)")
  case True
  let ?c = "calls p ! i"
  let ?q = "p\<lparr>calls := (calls p)[i := (fst ?c, True)]\<rparr>"
  have fsts: "map fst (calls ?q) = map fst (calls p)" using True by (simp add: map_fst_mark)
  have q: "login_inv ls ?q" using assms unfolding login_inv_def by (simp only: fsts) simp
  have "?c \<in> set (calls p)" using True by simp
  then have "fst ?c \<noteq> []" "js_trim (fst ?c) = fst ?c" using assms unfolding login_inv_def by auto
  with q True show ?thesis by (simp add: login_settle_def login_response_inv)
qed (use assms in \<open>auto simp: login_settle_def\<close>)

lemma login_step_inv: "login_inv ls p \<Longrightarrow> login_inv ls (login_step p e)"
proof (induction p e rule: login_step.induct)
  case (4 p)
  then show ?case by (auto simp: login_inv_def login_submit_def Let_def js_trim_idem)
next
  case (5 p i out now)
  then show ?case by (simp add: login_settle_inv)
qed (simp_all add: login_inv_def login_toggle_def)

lemma login_reach_inv: "login_reach ls p \<Longrightarrow> login_inv ls p"
proof (induction rule: login_reach.induct)
  case (init icons)
  show ?case by (simp add: login_inv_def login_init_def)
next
  case (step p e)
  from step.IH show ?case by (rule login_step_inv)
qed

section \<open>Properties\<close>

text \<open>
  C24.  A submission whose trimmed token is empty only raises the alert
  "Please enter your personal token!": no request is made and the store is not
  touched.
\<close>

theorem login_submit_empty:
  assumes "lready p" "js_trim (token_input p) = []"
  shows "login_submit p = p\<lparr>alerts := alerts p @ [''Please enter your personal token!'']\<rparr>"
  using assms by (simp add: login_submit_def)

text \<open>
  C25.  A submission with a non-empty trimmed token asks
  \<open>/api/token-status\<close> about exactly that token, as the text after
  \<open>?token=\<close> with no encoding, and changes nothing else yet.
\<close>

theorem login_submit_request:
  assumes "lready p" "js_trim (token_input p) \<noteq> []"
  shows "lrequests (login_submit p) = lrequests p @ [''/api/token-status?token='' @ js_trim (token_input p)]
     \<and> calls (login_submit p) = calls p @ [(js_trim (token_input p), False)]
     \<and> lstorage (login_submit p) = lstorage p \<and> alerts (login_submit p) = alerts p"
  using assms by (simp add: login_submit_def token_status_url_def Let_def)

text \<open>
  C8.  A valid answer to a call in flight stores a session record that
  \<open>JSON.parse\<close> reads back as the answer with the call's token and the UTC
  date of the moment the answer arrived, and sends the browser to \<open>/\<close>.
\<close>

theorem login_settle_valid_store:
  assumes "i < length (calls p)" "calls p ! i = (tok, False)" "json_parse b = Some data"
    "truthy_opt (field data ''valid'')"
  shows "\<exists>w. lstorage (login_settle i (Body b) now p) user_data = Some (json_stringify w)
     \<and> json_parse (json_stringify w) = Some w
     \<and> field w ''token'' = Some (JStr tok) \<and> field w ''saved_date'' = Some (JStr (today_str now))
     \<and> (\<forall>k. k \<noteq> ''token'' \<longrightarrow> k \<noteq> ''saved_date'' \<longrightarrow> field w k = field data k)
     \<and> llocation (login_settle i (Body b) now p) = Some ''/''"
proof -
  from assms(4) obtain ps where data: "data = JObj ps" using truthy_field_JObj by blast
  let ?w = "written_record (JStr tok) (JStr (today_str now)) ps"
  have rt: "json_parse (json_stringify ?w) = Some ?w"
    using assms(3) data by (intro written_record_parse) simp_all
  have "login_settle i (Body b) now p =
      (p\<lparr>calls := (calls p)[i := (tok, True)]\<rparr>)\<lparr>lstorage := (lstorage p)(user_data \<mapsto> json_stringify ?w),
        llocation := Some ''/''\<rparr>"
    using assms data by (simp add: login_settle_def login_response_valid)
  moreover have "\<forall>k. k \<noteq> ''token'' \<longrightarrow> k \<noteq> ''saved_date'' \<longrightarrow> field ?w k = field data k"
    using data by (simp add: written_record_field)
  ultimately show ?thesis using rt by (intro exI [of _ ?w]) simp
qed

text \<open>
  C21.  An answer whose \<open>valid\<close> field is falsy leaves the store and the location
  as they were and raises "Bad token! Try again.".
\<close>

theorem login_settle_bad_token:
  assumes "i < length (calls p)" "calls p ! i = (tok, False)" "json_parse b = Some data" "data \<noteq> JNull"
    "\<not> truthy_opt (field data ''valid'')"
  shows "lstorage (login_settle i (Body b) now p) = lstorage p
     \<and> llocation (login_settle i (Body b) now p) = llocation p
     \<and> alerts (login_settle i (Body b) now p) = alerts p @ [''Bad token! Try again.'']"
  using assms by (simp add: login_settle_def login_response_invalid)

text \<open>
  C22.  A failed request leaves the store and the location as they were and raises
  "An error occurred. Please try again later.".
\<close>

theorem login_settle_network_error:
  assumes "i < length (calls p)" "calls p ! i = (tok, False)"
  shows "lstorage (login_settle i NetworkError now p) = lstorage p
     \<and> llocation (login_settle i NetworkError now p) = llocation p
     \<and> alerts (login_settle i NetworkError now p) = alerts p @ [''An error occurred. Please try again later.'']"
  using assms by (simp add: login_settle_def login_response_def login_error_def)

text \<open>
  C9.  On every page a run of events reaches, the login page has written nothing
  but \<open>user_data\<close>, which is either what the browser held before or a session
  record with a non-empty, trimmed token and a date produced by
  \<open>toISOString\<close>; and every request asks about a non-empty, trimmed token.
\<close>

theorem login_reach_store:
  assumes "login_reach ls p"
  shows "(\<forall>k. k \<noteq> user_data \<longrightarrow> lstorage p k = ls k)
     \<and> (lstorage p user_data = ls user_data \<or> (\<exists>s. lstorage p user_data = Some s \<and> stored_session_ok s))
     \<and> (\<forall>url \<in> set (lrequests p). \<exists>tok. tok \<noteq> [] \<and> js_trim tok = tok \<and> url = token_status_url tok)"
  using login_reach_inv [OF assms] unfolding login_inv_def by auto

text \<open>
  C23.  Nothing orders the answers of two submissions: when the second answer
  arrives first, the first answer overwrites its record, and the store keeps
  the token submitted earlier.
\<close>

theorem login_out_of_order:
  assumes "calls p = [(t1, False), (t2, False)]" "json_parse b = Some (JObj ps)"
    "truthy_opt (map_of ps ''valid'')"
  shows "lstorage (login_settle 0 (Body b) n0 (login_settle 1 (Body b) n1 p)) user_data
     = Some (json_stringify (written_record (JStr t1) (JStr (today_str n0)) ps))"
  using assms by (simp add: login_settle_def login_response_valid)

text \<open>
  Two clicks on the visibility toggle restore the field's type and every
  icon's \<open>is-active\<close> class.
\<close>

lemma login_toggle_twice:
  assumes "lready p" "input_type p = ''password'' \<or> input_type p = ''text''"
  shows "login_toggle (login_toggle p) = p"
  using assms by (auto simp: login_toggle_def comp_def)

end
