(* ===== verification/Picker.thy ===== *)
theory Picker
  imports Clock
begin

text \<open>
  The date picker of the dashboard, dashboardScript.js.  Its \<open>DOMContentLoaded\<close>
  handler attaches a \<open>change\<close> listener to \<open>#datePicker\<close>, which navigates to
  \<open>/dashboard?date_str=\<close> followed by the picker's value.  The picker is an
  \<open>input type=date\<close>: the browser's value sanitization makes its value either a
  valid date string \<open>YYYY-MM-DD\<close> or the empty string (\<open>date_input_value\<close>).

  The query string of a URL is read as the server reads it (\<open>query_param\<close>):
  after the first \<open>?\<close> and up to \<open>#\<close>, split at \<open>&\<close>, the value of the first
  field named \<open>k\<close> (the text after its first \<open>=\<close>).  Percent-decoding is left
  out: neither a valid date string nor a token without \<open>%\<close> contains one.
\<close>

section \<open>The page\<close>

record picker_page =
  plocation :: "string option"
  pready :: bool
  picker_value :: string

datatype picker_event = PickerLoaded | PickDate string

text \<open>A valid date string of HTML: four digits, a month \<open>01..12\<close>, a day of that month.\<close>

definition valid_date_string :: "string \<Rightarrow> bool" where
  "valid_date_string v \<longleftrightarrow>
     length v = 10 \<and> v ! 4 = CHR ''-'' \<and> v ! 7 = CHR ''-''
     \<and> (\<forall>c \<in> set (take 4 v @ take 2 (drop 5 v) @ drop 8 v). is_digit c)
     \<and> 0 < read_nat (take 4 v)
     \<and> 1 \<le> read_nat (take 2 (drop 5 v)) \<and> read_nat (take 2 (drop 5 v)) \<le> 12
     \<and> 1 \<le> read_nat (drop 8 v)
     \<and> int (read_nat (drop 8 v)) \<le> days_in_month (int (read_nat (take 4 v))) (int (read_nat (take 2 (drop 5 v))))"

text \<open>\<open>this.value\<close> of the date input after the user picks or types \<open>v\<close>, line 5.\<close>

definition date_input_value :: "string \<Rightarrow> string" where
  "date_input_value v = (if valid_date_string v then v else [])"

text \<open>The \<open>change\<close> listener, lines 4 to 9.\<close>

definition picker_change :: "picker_page \<Rightarrow> picker_page" where
  "picker_change p =
     (if pready p then p\<lparr>plocation := Some (''/dashboard?date_str='' @ picker_value p)\<rparr> else p)"

fun picker_step :: "picker_page \<Rightarrow> picker_event \<Rightarrow> picker_page" where
  "picker_step p PickerLoaded = p\<lparr>pready := True\<rparr>"
| "picker_step p (PickDate v) = picker_change (p\<lparr>picker_value := date_input_value v\<rparr>)"

section \<open>Query strings\<close>

fun split_on :: "char \<Rightarrow> string \<Rightarrow> string list" where
  "split_on c [] = [[]]"
| "split_on c (x # xs) =
     (if x = c then [] # split_on c xs
      else (case split_on c xs of ys # yss \<Rightarrow> (x # ys) # yss | [] \<Rightarrow> [[x]]))"

definition query_string :: "string \<Rightarrow> string" where
  "query_string url = takeWhile (\<lambda>c. c \<noteq> CHR ''#'') (drop 1 (dropWhile (\<lambda>c. c \<noteq> CHR ''?'') url))"

definition query_param :: "string \<Rightarrow> string \<Rightarrow> string option" where
  "query_param k url =
     (case filter (\<lambda>f. takeWhile (\<lambda>c. c \<noteq> CHR ''='') f = k) (split_on (CHR ''&'') (query_string url)) of
        [] \<Rightarrow> None
      | f # _ \<Rightarrow> Some (drop 1 (dropWhile (\<lambda>c. c \<noteq> CHR ''='') f)))"


section \<open>Properties\<close>

lemma split_on_no_sep: "c \<notin> set xs \<Longrightarrow> split_on c xs = [xs]"
  by (induction xs) auto

lemma query_param_field:
  assumes "CHR ''?'' \<notin> set base" "CHR ''#'' \<notin> set (k @ v)" "CHR ''&'' \<notin> set (k @ v)" "CHR ''='' \<notin> set k"
  shows "query_param k (base @ CHR ''?'' # k @ CHR ''='' # v) = Some v"
proof -
  have "dropWhile (\<lambda>c. c \<noteq> CHR ''?'') base = []" using assms(1) by (auto simp: dropWhile_eq_Nil_conv)
  then have "query_string (base @ CHR ''?'' # k @ CHR ''='' # v) = k @ CHR ''='' # v"
    using assms(2) by (auto simp: query_string_def dropWhile_append3 takeWhile_append2)
  moreover have "split_on (CHR ''&'') (k @ CHR ''='' # v) = [k @ CHR ''='' # v]"
    using assms(3) by (intro split_on_no_sep) simp
  moreover have "takeWhile (\<lambda>c. c \<noteq> CHR ''='') (k @ CHR ''='' # v) = k"
    using assms(4) by (subst takeWhile_append2) auto
  moreover have "dropWhile (\<lambda>c. c \<noteq> CHR ''='') (k @ CHR ''='' # v) = CHR ''='' # v"
    using assms(4) by (subst dropWhile_append2) auto
  ultimately show ?thesis by (simp add: query_param_def)
qed

lemma split_on_append_sep: "c \<notin> set xs \<Longrightarrow> split_on c (xs @ c # ys) = xs # split_on c ys"
proof (induction xs)
  case (Cons x xs)
  then show ?case by auto
qed simp

lemma valid_date_chars:
  assumes "valid_date_string v"
  shows "\<forall>c \<in> set v. is_digit c \<or> c = CHR ''-''"
proof -
  from assms have "length v = 10" by (simp add: valid_date_string_def)
  then obtain a0 a1 a2 a3 a4 a5 a6 a7 a8 a9 where v: "v = [a0, a1, a2, a3, a4, a5, a6, a7, a8, a9]"
    by (auto simp: length_Suc_conv numeral_eq_Suc)
  with assms show ?thesis by (simp add: valid_date_string_def)
qed

lemma valid_date_no_delims:
  assumes "valid_date_string v"
  shows "CHR ''&'' \<notin> set v" "CHR ''#'' \<notin> set v"
  using valid_date_chars [OF assms] by (auto simp: is_digit_def)

text \<open>
  C29.  Picking a date navigates to \<open>/dashboard?date_str=\<close> followed by the
  date, and the server reads that date back from the query string unchanged.
\<close>

theorem picker_change_navigates:
  assumes "pready p" "valid_date_string v"
  shows "plocation (picker_step p (PickDate v)) = Some (''/dashboard?date_str='' @ v)
     \<and> query_param ''date_str'' (''/dashboard?date_str='' @ v) = Some v"
proof -
  have "query_param ''date_str'' (''/dashboard'' @ CHR ''?'' # ''date_str'' @ CHR ''='' # v) = Some v"
    using valid_date_no_delims [OF assms(2)] by (intro query_param_field) simp_all
  with assms show ?thesis by (simp add: picker_change_def date_input_value_def)
qed



text \<open>
  C30.  A token containing \<open>&\<close> is cut there: the server reads only the text
  before it as the token, because the scripts do not encode the token.
\<close>

theorem token_query_ampersand:
  assumes "CHR ''&'' \<notin> set a" "CHR ''#'' \<notin> set a" "CHR ''#'' \<notin> set b"
  shows "query_param ''token'' (token_status_url (a @ CHR ''&'' # b)) = Some a"
proof -
  have "query_string (token_status_url (a @ CHR ''&'' # b)) = ''token='' @ a @ CHR ''&'' # b"
    using assms(2,3) by (auto simp: query_string_def token_status_url_def takeWhile_append2)
  moreover have "split_on (CHR ''&'') (''token='' @ a @ CHR ''&'' # b) = (''token='' @ a) # split_on (CHR ''&'') b"
    using assms(1) split_on_append_sep [of "CHR ''&''" "''token='' @ a" b] by simp
  ultimately show ?thesis by (simp add: query_param_def)
qed

end
