(* ===== verification/Calendar.thy ===== *)
theory Calendar
  imports Clock
begin

text \<open>
  Correctness of the calendar arithmetic of \<open>Clock\<close>.  \<open>civil_from_days\<close>
  is the era-based algorithm that turns a day number into a proleptic Gregorian
  date (it is what \<open>toISOString\<close> and \<open>getDate\<close>/\<open>getMonth\<close> compute);
  \<open>days_from_civil\<close> is ECMAScript's \<open>MakeDay\<close>, written from the
  standard's \<open>DayFromYear\<close> and month offsets.  The theory shows that the two
  agree: the algorithm yields a valid date whose \<open>MakeDay\<close> is the day number
  it started from, and it is the only valid date with that day number.

  \<^item> The 400-year era splits into centuries, four-year cycles and years
    (\<open>doe_decomp\<close>); the March-based day of the year splits into months by
    the \<open>(153 mp + 2) div 5\<close> offsets (\<open>doy_month\<close>, \<open>march_offset\<close>).
  \<^item> \<open>DayFromYear\<close> satisfies the closed form of the March-based count
    (\<open>day_from_year_march\<close>, \<open>day_from_year_succ\<close>) and grows by the year
    length (\<open>day_from_year_step\<close>), which gives injectivity on valid dates.
\<close>

section \<open>The era decomposition\<close>

lemma doe_decomp:
  fixes doe :: int
  assumes "0 \<le> doe" "doe < 146096"
  defines "yoe \<equiv> (doe - doe div 1460 + doe div 36524 - doe div 146096) div 365"
  shows "0 \<le> yoe \<and> yoe \<le> 399 \<and> 0 \<le> doe - (365 * yoe + yoe div 4 - yoe div 100)
     \<and> doe - (365 * yoe + yoe div 4 - yoe div 100) < 365 + (if leap_year (yoe + 1) then 1 else 0)"
proof -
  define c where "c = doe div 36524"
  define r1 where "r1 = doe mod 36524"
  define q where "q = r1 div 1461"
  define r2 where "r2 = r1 mod 1461"
  define r where "r = min 3 (r2 div 365)"
  have e1: "doe = 36524 * c + r1" "0 \<le> r1" "r1 < 36524" unfolding c_def r1_def by simp_all
  have e2: "r1 = 1461 * q + r2" "0 \<le> r2" "r2 < 1461" unfolding q_def r2_def by simp_all
  have c: "0 \<le> c" "c \<le> 3" using e1 assms by linarith+
  have qb: "0 \<le> q" "q \<le> 24" using e1 e2 by linarith+
  have d3: "r2 div 365 * 365 \<le> r2" "r2 < r2 div 365 * 365 + 365" using zmod_bounds [of 365 r2] by linarith+
  have rcases: "r = 3 \<and> 3 \<le> r2 div 365 \<or> r = r2 div 365 \<and> r2 div 365 < 3" unfolding r_def by auto
  have rb: "0 \<le> r" "r \<le> 3" "365 * r \<le> r2" "r2 - 365 * r \<le> 365" "r2 - 365 * r = 365 \<Longrightarrow> r2 = 1460"
    using rcases d3 e2 by linarith+
  have big: "r2 = 1460 \<Longrightarrow> q \<le> 23" using e1 e2 by linarith
  have div146: "doe div 146096 = 0" using assms by simp
  have div365: "doe div 36524 = c" by (simp add: c_def)
  have div1460: "doe div 1460 = 25 * c + q + (if 24 * c + q + r2 < 1460 then 0 else 1)"
    using e1 e2 c qb by (intro zdiv_eqI) auto
  have n: "doe - doe div 1460 + doe div 36524 - doe div 146096
      = 365 * (100 * c + 4 * q) + r2 - (if 24 * c + q + r2 < 1460 then 0 else 1)"
    using div146 div365 div1460 e1 e2 by simp
  have rlt: "r2 - 365 * r < 365 \<or> r2 = 1460" using rb by linarith
  have r3: "1095 \<le> r2 \<Longrightarrow> r = 3" using rcases d3 by linarith
  have y: "yoe = 100 * c + 4 * q + r"
  proof (cases "24 * c + q + r2 < 1460")
    case True
    then have "r2 - 365 * r < 365" using rlt c qb by linarith
    with True show ?thesis unfolding yoe_def n using rb by (intro zdiv_eqI) simp_all
  next
    case False
    then have "r = 3" using r3 c qb by linarith
    with False show ?thesis unfolding yoe_def n using rb e2 c qb by (intro zdiv_eqI) simp_all
  qed
  have y4: "yoe div 4 = 25 * c + q" unfolding y using rb by (intro zdiv_eqI) auto
  have y100: "yoe div 100 = c" unfolding y using rb qb by (intro zdiv_eqI) auto
  have doy: "doe - (365 * yoe + yoe div 4 - yoe div 100) = r2 - 365 * r"
    using y y4 y100 e1 e2 by simp
  have leap: "r2 - 365 * r = 365 \<Longrightarrow> leap_year (yoe + 1)"
  proof -
    assume "r2 - 365 * r = 365"
    then have "r2 = 1460" "r = 3" using rb by auto
    with big have "q \<le> 23" by simp
    have "yoe + 1 = 4 * (25 * c + q + 1)" using y \<open>r = 3\<close> by simp
    moreover have "\<not> 100 dvd yoe + 1"
    proof
      assume "100 dvd yoe + 1"
      then obtain k where "yoe + 1 = 100 * k" by blast
      define m where "m = k - c"
      with y \<open>r = 3\<close> \<open>yoe + 1 = 100 * k\<close> have k: "100 * m = 4 * q + 4" by (simp add: algebra_simps)
      with qb have "0 < m" by linarith
      then have "100 \<le> 100 * m" by linarith
      with k \<open>q \<le> 23\<close> show False by linarith
    qed
    ultimately show ?thesis by (simp add: leap_year_def)
  qed
  have D1: "0 \<le> r2 - 365 * r" using rb by linarith
  have D2: "r2 - 365 * r < 365 + (if leap_year (yoe + 1) then 1 else 0)"
  proof (cases "r2 - 365 * r < 365")
    case False
    then have "r2 - 365 * r = 365" using rb by linarith
    with leap show ?thesis by simp
  qed simp
  have Y: "0 \<le> yoe" "yoe \<le> 399" using y c qb rb by linarith+
  show ?thesis unfolding doy using Y D1 D2 by blast
qed

lemma doe_decomp_full:
  fixes doe :: int
  assumes "0 \<le> doe" "doe < 146097"
  defines "yoe \<equiv> (doe - doe div 1460 + doe div 36524 - doe div 146096) div 365"
  shows "0 \<le> yoe \<and> yoe \<le> 399 \<and> 0 \<le> doe - (365 * yoe + yoe div 4 - yoe div 100)
     \<and> doe - (365 * yoe + yoe div 4 - yoe div 100) < 365 + (if leap_year (yoe + 1) then 1 else 0)"
proof (cases "doe = 146096")
  case True
  then show ?thesis by (simp add: yoe_def leap_year_def)
next
  case False
  with assms show ?thesis unfolding yoe_def by (intro doe_decomp) simp_all
qed

lemma doy_month:
  fixes doy :: int
  assumes "0 \<le> doy" "doy < 365 + (if lp then 1 else 0)"
  defines "mp \<equiv> (5 * doy + 2) div 153"
  defines "d \<equiv> doy - (153 * mp + 2) div 5 + 1"
  defines "m \<equiv> (if mp < 10 then mp + 3 else mp - 9)"
  shows "0 \<le> mp \<and> mp \<le> 11 \<and> 1 \<le> d
     \<and> d \<le> (if m = 2 then (if lp then 29 else 28) else if m = 4 \<or> m = 6 \<or> m = 9 \<or> m = 11 then 30 else 31)"
proof -
  have bnd: "153 * mp \<le> 5 * doy + 2" "5 * doy + 2 < 153 * mp + 153"
    using zmod_bounds [of 153 "5 * doy + 2"] unfolding mp_def by linarith+
  then have mb: "0 \<le> mp" "mp \<le> 11" using assms(1,2) by (auto split: if_splits)
  then have "mp \<in> set [0..11]" by simp
  then have "mp = 0 \<or> mp = 1 \<or> mp = 2 \<or> mp = 3 \<or> mp = 4 \<or> mp = 5 \<or> mp = 6 \<or> mp = 7
      \<or> mp = 8 \<or> mp = 9 \<or> mp = 10 \<or> mp = 11" by (simp add: upto.simps)
  then show ?thesis using bnd assms(2) unfolding d_def m_def
    by (elim disjE; simp split: if_splits; linarith)
qed

lemma march_offset:
  fixes mp :: int
  assumes "0 \<le> mp" "mp \<le> 11"
  shows "month_start lp (if mp < 10 then mp + 3 else mp - 9)
     = (153 * mp + 2) div 5 + (if mp < 10 then 59 + (if lp then 1 else 0) else - 306)"
proof -
  have "mp \<in> set [0..11]" using assms by simp
  then have "mp = 0 \<or> mp = 1 \<or> mp = 2 \<or> mp = 3 \<or> mp = 4 \<or> mp = 5 \<or> mp = 6 \<or> mp = 7
      \<or> mp = 8 \<or> mp = 9 \<or> mp = 10 \<or> mp = 11" by (simp add: upto.simps)
  then show ?thesis by (elim disjE) (simp_all add: month_start_def)
qed

section \<open>DayFromYear and the March-based year\<close>

lemma day_from_year_succ:
  "day_from_year (y + 1) = 365 * y + y div 4 - y div 100 + y div 400 - 719162"
proof -
  have a: "(y + 1 - 1969) div 4 = y div 4 - 492" using div_minus_mult [of 4 y 492] by simp
  have b: "(y + 1 - 1901) div 100 = y div 100 - 19" using div_minus_mult [of 100 y 19] by simp
  have c: "(y + 1 - 1601) div 400 = y div 400 - 4" using div_minus_mult [of 400 y 4] by simp
  show ?thesis unfolding day_from_year_def a b c by simp
qed

lemma leap_year_dvd:
  "(if leap_year y then 1 else 0 :: int) = (if 4 dvd y then 1 else 0) - (if 100 dvd y then 1 else 0) + (if 400 dvd (y::int) then 1 else 0)"
proof -
  have "400 dvd y \<Longrightarrow> 100 dvd y" "100 dvd y \<Longrightarrow> 4 dvd y"
    using dvd_trans [of "100::int" 400 y] dvd_trans [of "4::int" 100 y] by simp_all
  then show ?thesis by (auto simp: leap_year_def)
qed

lemma day_from_year_march:
  "day_from_year y + 59 + (if leap_year y then 1 else 0) = 365 * y + y div 4 - y div 100 + y div 400 - 719468"
proof -
  have d: "day_from_year y = 365 * (y - 1) + (y - 1) div 4 - (y - 1) div 100 + (y - 1) div 400 - 719162"
    using day_from_year_succ [of "y - 1"] by simp
  show ?thesis
    unfolding d div_pred [of 4 y, simplified] div_pred [of 100 y, simplified] div_pred [of 400 y, simplified]
      leap_year_dvd by simp
qed

lemma leap_year_period: "leap_year (y + 400 * e) = leap_year y"
proof -
  have "(k dvd y + 400 * e) = (k dvd y)" if "k dvd 400" for k :: int
    using dvd_add_left_iff [OF dvd_mult2 [OF that, of e], of y] by simp
  then show ?thesis by (simp add: leap_year_def)
qed

lemma day_from_year_step:
  "day_from_year (y + 1) = day_from_year y + 365 + (if leap_year y then 1 else 0)"
  using day_from_year_succ [of y] day_from_year_march [of y] by simp

lemma day_from_year_mono: "day_from_year y + 365 * int n \<le> day_from_year (y + int n)"
proof (induction n)
  case (Suc n)
  then show ?case using day_from_year_step [of "y + int n"] by (simp add: algebra_simps split: if_splits)
qed simp

section \<open>Month offsets\<close>

lemma month_start_next:
  assumes "1 \<le> m" "m \<le> 11"
  shows "month_start (leap_year y) (m + 1) = month_start (leap_year y) m + days_in_month y m"
proof -
  have "m \<in> set [1..11]" using assms by simp
  then have "m = 1 \<or> m = 2 \<or> m = 3 \<or> m = 4 \<or> m = 5 \<or> m = 6 \<or> m = 7 \<or> m = 8 \<or> m = 9 \<or> m = 10 \<or> m = 11"
    by (simp add: upto.simps)
  then show ?thesis by (elim disjE) (simp_all add: month_start_def days_in_month_def)
qed

lemma days_in_month_pos: "0 < days_in_month y m"
  by (simp add: days_in_month_def)

lemma month_start_mono:
  assumes "1 \<le> m" "m < m'" "m' \<le> 12"
  shows "month_start (leap_year y) m + days_in_month y m \<le> month_start (leap_year y) m'"
  using assms(2,3)
proof (induction m' rule: int_gr_induct)
  case base
  then show ?case using month_start_next [of m y] assms(1) by simp
next
  case (step i)
  then show ?case using month_start_next [of i y] days_in_month_pos [of y i] assms(1) by simp
qed

lemma month_start_year:
  assumes "1 \<le> m" "m \<le> 12"
  shows "0 \<le> month_start (leap_year y) m \<and> month_start (leap_year y) m + days_in_month y m \<le> 365 + (if leap_year y then 1 else 0)"
proof -
  have "m \<in> set [1..12]" using assms by simp
  then have "m = 1 \<or> m = 2 \<or> m = 3 \<or> m = 4 \<or> m = 5 \<or> m = 6 \<or> m = 7 \<or> m = 8 \<or> m = 9 \<or> m = 10 \<or> m = 11 \<or> m = 12"
    by (simp add: upto.simps)
  then show ?thesis by (elim disjE) (simp_all add: month_start_def days_in_month_def)
qed

section \<open>The algorithm against MakeDay\<close>

lemma civil_from_days_inverse:
  "case civil_from_days z of (y, m, d) \<Rightarrow>
     1 \<le> m \<and> m \<le> 12 \<and> 1 \<le> d \<and> d \<le> days_in_month y m \<and> days_from_civil (y, m, d) = z"
proof -
  define era where "era = (z + 719468) div 146097"
  define doe where "doe = (z + 719468) mod 146097"
  define yoe where "yoe = (doe - doe div 1460 + doe div 36524 - doe div 146096) div 365"
  define doy where "doy = doe - (365 * yoe + yoe div 4 - yoe div 100)"
  define mp where "mp = (5 * doy + 2) div 153"
  define d where "d = doy - (153 * mp + 2) div 5 + 1"
  define m where "m = (if mp < 10 then mp + 3 else mp - 9)"
  define y where "y = yoe + era * 400"
  have cfd: "civil_from_days z = (if m \<le> 2 then y + 1 else y, m, d)"
    unfolding civil_from_days_def Let_def era_def doe_def yoe_def doy_def mp_def d_def m_def y_def ..
  have ez: "z + 719468 = 146097 * era + doe" unfolding era_def doe_def by simp
  have "0 \<le> doe" "doe < 146097" unfolding doe_def by simp_all
  then have D: "0 \<le> yoe" "yoe \<le> 399" "0 \<le> doy" "doy < 365 + (if leap_year (yoe + 1) then 1 else 0)"
    using doe_decomp_full [of doe] unfolding yoe_def doy_def by simp_all
  then have M: "0 \<le> mp \<and> mp \<le> 11 \<and> 1 \<le> d
     \<and> d \<le> (if m = 2 then (if leap_year (yoe + 1) then 29 else 28) else if m = 4 \<or> m = 6 \<or> m = 9 \<or> m = 11 then 30 else 31)"
    unfolding mp_def d_def m_def by (intro doy_month) simp_all
  have off: "month_start lp m = (153 * mp + 2) div 5 + (if mp < 10 then 59 + (if lp then 1 else 0) else - 306)" for lp
    using march_offset [of mp lp] M unfolding m_def by simp
  have "y = yoe + 4 * (100 * era)" "y = yoe + 100 * (4 * era)" "y = yoe + 400 * era" unfolding y_def by simp_all
  then have y4: "y div 4 = yoe div 4 + 100 * era" and y100: "y div 100 = yoe div 100 + 4 * era"
    and y400: "y div 400 = yoe div 400 + era"
    using div_shift [of 4 yoe] div_shift [of 100 yoe] div_shift [of 400 yoe] by simp_all
  have "yoe div 400 = 0" using D by simp
  then have zy: "z = 365 * y + y div 4 - y div 100 + y div 400 - 719468 + doy"
    unfolding y4 y100 y400 using ez unfolding doy_def y_def by simp
  have lp: "leap_year (y + 1) = leap_year (yoe + 1)"
    using leap_year_period [of "yoe + 1" era] unfolding y_def by (simp add: algebra_simps)
  show ?thesis
  proof (cases "mp < 10")
    case True
    then have "\<not> m \<le> 2" "m \<noteq> 2" "1 \<le> m" "m \<le> 12" using M unfolding m_def by simp_all
    moreover have "days_from_civil (y, m, d) = z"
    proof -
      have "month_start (leap_year y) m = (153 * mp + 2) div 5 + 59 + (if leap_year y then 1 else 0)"
        using off [of "leap_year y"] True by simp
      with day_from_year_march [of y] zy show ?thesis unfolding days_from_civil_def d_def by simp
    qed
    ultimately show ?thesis using M cfd by (simp add: days_in_month_def)
  next
    case False
    then have "m \<le> 2" "1 \<le> m" "m \<le> 12" "m = 1 \<or> m = 2" using M unfolding m_def by auto
    moreover have "days_from_civil (y + 1, m, d) = z"
    proof -
      have "month_start (leap_year (y + 1)) m = (153 * mp + 2) div 5 - 306"
        using off [of "leap_year (y + 1)"] False by simp
      with day_from_year_succ [of y] zy show ?thesis unfolding days_from_civil_def d_def by simp
    qed
    ultimately show ?thesis using M cfd lp by (auto simp: days_in_month_def)
  qed
qed

lemma days_from_civil_in_year:
  assumes "1 \<le> m" "m \<le> 12" "1 \<le> d" "d \<le> days_in_month y m"
  shows "day_from_year y \<le> days_from_civil (y, m, d) \<and> days_from_civil (y, m, d) < day_from_year (y + 1)"
  using month_start_year [OF assms(1,2), of y] day_from_year_step [of y] assms(3,4)
  by (simp add: days_from_civil_def)

lemma year_unique:
  assumes "day_from_year y \<le> z" "z < day_from_year (y + 1)" "day_from_year y' \<le> z" "z < day_from_year (y' + 1)"
  shows "y = y'"
proof -
  have no: "\<not> a < b" if "day_from_year b \<le> z" "z < day_from_year (a + 1)" for a b
  proof
    assume "a < b"
    then have "day_from_year (a + 1) + 365 * (b - a - 1) \<le> day_from_year b"
      using day_from_year_mono [of "a + 1" "nat (b - a - 1)"] by simp
    moreover have "0 \<le> 365 * (b - a - 1)" using \<open>a < b\<close> by simp
    ultimately show False using that by linarith
  qed
  show ?thesis using no [of y y'] no [of y' y] assms by simp
qed

lemma month_unique:
  assumes "1 \<le> m" "m \<le> 12" "1 \<le> d" "d \<le> days_in_month y m"
    "1 \<le> m'" "m' \<le> 12" "1 \<le> d'" "d' \<le> days_in_month y m'"
    "month_start (leap_year y) m + d = month_start (leap_year y) m' + d'"
  shows "m = m' \<and> d = d'"
proof -
  have "\<not> m < m'" using month_start_mono [of m m' y] assms by fastforce
  moreover have "\<not> m' < m" using month_start_mono [of m' m y] assms by fastforce
  ultimately show ?thesis using assms(9) by simp
qed

lemma days_from_civil_inj:
  assumes "1 \<le> m" "m \<le> 12" "1 \<le> d" "d \<le> days_in_month y m"
    "1 \<le> m'" "m' \<le> 12" "1 \<le> d'" "d' \<le> days_in_month y' m'"
    "days_from_civil (y, m, d) = days_from_civil (y', m', d')"
  shows "(y, m, d) = (y', m', d')"
proof -
  have "y = y'"
    using days_from_civil_in_year [OF assms(1-4)] days_from_civil_in_year [OF assms(5-8)] assms(9)
    by (intro year_unique [of y "days_from_civil (y, m, d)"]) simp_all
  with assms month_unique [of m d y m' d'] show ?thesis by (simp add: days_from_civil_def)
qed

section \<open>The years of a day number\<close>

lemma day_from_year_le: "a \<le> b \<Longrightarrow> day_from_year a \<le> day_from_year b"
  using day_from_year_mono [of a "nat (b - a)"] by simp

lemma civil_year_range:
  assumes "civil_from_days z = (y, m, d)" "day_from_year 1 \<le> z" "z < day_from_year 10000"
  shows "1 \<le> y \<and> y \<le> 9999"
proof -
  have v: "1 \<le> m" "m \<le> 12" "1 \<le> d" "d \<le> days_in_month y m" "days_from_civil (y, m, d) = z"
    using civil_from_days_inverse [of z] assms(1) by simp_all
  then have "day_from_year y \<le> z" "z < day_from_year (y + 1)" using days_from_civil_in_year [OF v(1-4)] by simp_all
  moreover have "\<not> y < 1" "\<not> 9999 < y"
    using day_from_year_le [of "y + 1" 1] day_from_year_le [of 10000 y] calculation assms(2,3) by auto
  ultimately show ?thesis by simp
qed

section \<open>Printing the date\<close>

lemma iso_date_civil:
  "iso_date t = iso_date t' \<longleftrightarrow> civil_from_days (t div ms_per_day) = civil_from_days (t' div ms_per_day)"
proof
  obtain y m d where c: "civil_from_days (t div ms_per_day) = (y, m, d)" by (cases "civil_from_days (t div ms_per_day)") auto
  obtain y' m' d' where c': "civil_from_days (t' div ms_per_day) = (y', m', d')" by (cases "civil_from_days (t' div ms_per_day)") auto
  have V: "1 \<le> m \<and> m \<le> 12 \<and> 1 \<le> d \<and> d \<le> days_in_month y m" "1 \<le> m' \<and> m' \<le> 12 \<and> 1 \<le> d' \<and> d' \<le> days_in_month y' m'"
    using civil_from_days_inverse [of "t div ms_per_day"] civil_from_days_inverse [of "t' div ms_per_day"] c c'
    by simp_all
  moreover have "days_in_month y m \<le> 31" "days_in_month y' m' \<le> 31" by (simp_all add: days_in_month_def)
  ultimately have "m < 100" "d < 100" "m' < 100" "d' < 100" by linarith+
  then have v: "nat m < 100" "nat d < 100" "nat m' < 100" "nat d' < 100" by simp_all
  define P where "P = pad_nat 2 (nat m)"
  define Q where "Q = pad_nat 2 (nat d)"
  define P' where "P' = pad_nat 2 (nat m')"
  define Q' where "Q' = pad_nat 2 (nat d')"
  have l: "length P = 2" "length Q = 2" "length P' = 2" "length Q' = 2"
    using v unfolding P_def Q_def P'_def Q'_def by (simp_all add: pad_nat_two_length)
  assume "iso_date t = iso_date t'"
  then have E: "iso_year y @ (CHR ''-'' # P @ CHR ''-'' # Q) = iso_year y' @ (CHR ''-'' # P' @ CHR ''-'' # Q')"
    using c c' unfolding iso_date_def P_def Q_def P'_def Q'_def by simp
  have "iso_year y = iso_year y' \<and> CHR ''-'' # P @ CHR ''-'' # Q = CHR ''-'' # P' @ CHR ''-'' # Q'"
    using append_eq_append_conv [of "CHR ''-'' # P @ CHR ''-'' # Q" "CHR ''-'' # P' @ CHR ''-'' # Q'" "iso_year y" "iso_year y'"] E l
    by simp
  then have "iso_year y = iso_year y'" "P @ CHR ''-'' # Q = P' @ CHR ''-'' # Q'" by simp_all
  moreover have "P = P' \<and> Q = Q'" using append_eq_append_conv [of P P' "CHR ''-'' # Q" "CHR ''-'' # Q'"] calculation(2) l
    by simp
  ultimately have "y = y'" "nat m = nat m'" "nat d = nat d'"
    using iso_year_inj unfolding P_def Q_def P'_def Q'_def pad_nat_inj by simp_all
  with V have "y = y'" "m = m'" "d = d'" by (simp_all add: eq_nat_nat_iff)
  with c c' show "civil_from_days (t div ms_per_day) = civil_from_days (t' div ms_per_day)" by simp
qed (simp add: iso_date_def)

lemma days_from_civil_from_days: "days_from_civil (civil_from_days z) = z"
  using civil_from_days_inverse [of z] by (cases "civil_from_days z") simp

lemma civil_from_days_inj: "civil_from_days z = civil_from_days z' \<longleftrightarrow> z = z'"
  by (metis days_from_civil_from_days)

lemma today_str_day: "today_str t = today_str t' \<longleftrightarrow> t div ms_per_day = t' div ms_per_day"
  by (simp add: today_str_iso_date iso_date_civil civil_from_days_inj)

section \<open>Properties\<close>


text \<open>
  C35.  The session date is the UTC date, not the local one: the date
  \<open>today_str\<close> stamps and checks is the local calendar date exactly when the
  time value and the local time fall on the same day number, so at a time-zone
  offset other than zero the two differ for part of every day.
\<close>

theorem today_str_utc:
  "today_str t = local_date_str tz t \<longleftrightarrow> t div ms_per_day = (t + tz) div ms_per_day"
proof -
  have "today_str t = iso_date t" by (rule today_str_iso_date)
  then show ?thesis by (simp add: local_date_str_def local_time_def iso_date_civil civil_from_days_inj)
qed

lemma today_str_utc_instance:
  "today_str 1709593200000 = ''2024-03-04'' \<and> local_date_str 7200000 1709593200000 = ''2024-03-05''"
  by code_simp

end
