(* ===== verification/Browser.thy ===== *)
theory Browser
  imports Session Login
begin

text \<open>
  The two pages in one browser.  The login page (loginScript.js) and the
  dashboard (indexScript.js) share \<open>localStorage\<close>, and each sends the browser to
  the other by setting \<open>window.location.href\<close>: the login page to \<open>/\<close> after a
  valid answer, the dashboard to \<open>/login\<close> when it rejects or drops the session.
  \<^item> \<open>browser\<close> is the page currently shown; \<open>browser_event\<close> is an event of that
    page, the browser following the location the page set (\<open>Follow\<close>: the old
    page is dropped and the new one is loaded over the same store), or the user
    opening \<open>/\<close> or \<open>/login\<close> directly (\<open>Visit\<close>).  Until the browser follows,
    the old page keeps handling its events, as a page does between the
    assignment to \<open>location.href\<close> and the unload.
  \<^item> \<open>session_of\<close> reads the store as the specification's SessionRecord
    (section 3): no record, a record with a string token and date, or something
    else.
  \<^item> The lemmas show that only \<open>user_data\<close> ever changes, that a store holding no
    record or a login-shaped record keeps that shape across any sequence of
    page events and navigations (\<open>browser_store_ok\<close>), and that every step follows
    the specification's lifecycle (\<open>browser_lifecycle\<close>).
\<close>

section \<open>The browser\<close>

text \<open>The page shown: the login page or the dashboard.\<close>

datatype browser = AtLogin login_page | AtDash dash_page

datatype browser_event =
    OnLogin login_event
  | OnDash dash_event
  | Follow "bool list" dash_dom
  | Visit string "bool list" dash_dom

fun browser_store :: "browser \<Rightarrow> store" where
  "browser_store (AtLogin p) = lstorage p"
| "browser_store (AtDash p) = storage p"

fun browser_location :: "browser \<Rightarrow> string option" where
  "browser_location (AtLogin p) = llocation p"
| "browser_location (AtDash p) = location p"

text \<open>The page the browser loads for a path, over the store it has; the server's
  other pages (such as \<open>/dashboard?date_str=\<close>) are not modelled.\<close>

definition page_at :: "string \<Rightarrow> bool list \<Rightarrow> dash_dom \<Rightarrow> store \<Rightarrow> browser option" where
  "page_at path icons d st =
     (if path = ''/login'' then Some (AtLogin (login_init st icons))
      else if path = ''/'' then Some (AtDash (dash_init st d))
      else None)"

definition browser_load :: "string \<Rightarrow> bool list \<Rightarrow> dash_dom \<Rightarrow> browser \<Rightarrow> browser" where
  "browser_load path icons d b = (case page_at path icons d (browser_store b) of Some b' \<Rightarrow> b' | None \<Rightarrow> b)"

fun browser_step :: "int \<Rightarrow> browser \<Rightarrow> browser_event \<Rightarrow> browser" where
  "browser_step tz (AtLogin p) (OnLogin e) = AtLogin (login_step p e)"
| "browser_step tz (AtDash p) (OnDash e) = AtDash (dash_step tz p e)"
| "browser_step tz b (Follow icons d) =
     (case browser_location b of Some path \<Rightarrow> browser_load path icons d b | None \<Rightarrow> b)"
| "browser_step tz b (Visit path icons d) = browser_load path icons d b"
| "browser_step tz b e = b"

text \<open>The browser states reachable from opening \<open>/\<close> or \<open>/login\<close> over the store \<open>ls\<close>.\<close>

inductive browser_reach :: "int \<Rightarrow> store \<Rightarrow> browser \<Rightarrow> bool" for tz ls where
  start: "page_at path icons d ls = Some b \<Longrightarrow> browser_reach tz ls b"
| step: "browser_reach tz ls b \<Longrightarrow> browser_reach tz ls (browser_step tz b e)"

section \<open>The session record as the specification sees it\<close>

text \<open>The specification's SessionRecord: absent, a record with token and saved date
  (strings), or a stored value of any other shape.\<close>

datatype session_view = NoRecord | Record string string | Unreadable

definition record_view :: "jval \<Rightarrow> session_view" where
  "record_view w =
     (case (field w ''token'', field w ''saved_date'') of
        (Some (JStr tk), Some (JStr d)) \<Rightarrow> Record tk d
      | _ \<Rightarrow> Unreadable)"

definition session_of :: "store \<Rightarrow> session_view" where
  "session_of st =
     (case st user_data of
        None \<Rightarrow> NoRecord
      | Some s \<Rightarrow> (case json_parse s of None \<Rightarrow> Unreadable | Some w \<Rightarrow> record_view w))"

text \<open>The shape the login page gives the store: no record, or a record with a
  non-empty trimmed token and a \<open>toISOString\<close> date.\<close>

definition store_ok :: "store \<Rightarrow> bool" where
  "store_ok st \<longleftrightarrow> (case st user_data of None \<Rightarrow> True | Some s \<Rightarrow> stored_session_ok s)"

text \<open>While the dashboard loads or waits, no logout handler is installed, and the
  request in flight asks about the token and date of the stored record.\<close>

definition awaiting_rec :: "dash_page \<Rightarrow> bool" where
  "awaiting_rec p \<longleftrightarrow>
     (case phase p of
        Loading \<Rightarrow> \<not> logout_handler p
      | Awaiting tok sd \<Rightarrow> \<not> logout_handler p \<and>
          (\<exists>s ud. storage p user_data = Some s \<and> json_parse s = Some ud
             \<and> field ud ''token'' = Some tok \<and> field ud ''saved_date'' = Some sd)
      | Idle \<Rightarrow> True)"

definition page_inv :: "browser \<Rightarrow> bool" where
  "page_inv b =
     (case b of
        AtLogin p \<Rightarrow> (\<forall>t \<in> set (map fst (calls p)). t \<noteq> [] \<and> js_trim t = t)
      | AtDash p \<Rightarrow> awaiting_rec p)"

section \<open>Lemmas\<close>

lemma dash_load_logout: "logout_handler (dash_load tz t p) = logout_handler p"
  by (simp add: dash_load_def Let_def split: boot.split)

lemma awaiting_rec_step:
  assumes "awaiting_rec p"
  shows "awaiting_rec (dash_step tz p e)"
proof (cases e)
  case (DomLoaded t)
  show ?thesis
  proof (cases "phase p = Loading")
    case True
    then have nl: "\<not> logout_handler (dash_load tz t p)" using assms by (simp add: awaiting_rec_def dash_load_logout)
    show ?thesis
    proof (cases "phase (dash_load tz t p)")
      case (Awaiting tok sd)
      then obtain url where v: "boot_check (today_str t) (storage p user_data) = Validate url tok sd"
        using dash_load_awaiting by blast
      then have "storage (dash_load tz t p) = storage p" by (simp add: dash_load_def Let_def)
      with boot_check_ValidateD [OF v] Awaiting nl DomLoaded True show ?thesis
        by (auto simp: awaiting_rec_def)
    qed (use DomLoaded True nl dash_load_phase in \<open>simp_all add: awaiting_rec_def\<close>)
  next
    case False
    with DomLoaded assms show ?thesis by simp
  qed
next
  case (FetchSettled out)
  then show ?thesis using dash_settle_frame [of out p] assms
    by (auto simp: awaiting_rec_def dash_settle_def split: dash_phase.splits)
qed (use assms in \<open>auto simp: awaiting_rec_def dash_tick_def dash_click_def dash_submit_def
      dash_timer_def Let_def split: option.split nat.split dash_phase.splits\<close>)

lemma dash_reach_awaiting_rec: "dash_reach tz ls p \<Longrightarrow> awaiting_rec p"
proof (induction rule: dash_reach.induct)
  case (init d)
  show ?case by (simp add: awaiting_rec_def dash_init_def)
next
  case (step p e)
  from step.IH show ?case by (rule awaiting_rec_step)
qed

lemma dash_step_storage:
  "storage (dash_step tz p e) = storage p
   \<or> (storage (dash_step tz p e) = (storage p)(user_data := None) \<and> location (dash_step tz p e) = Some ''/login'')
   \<or> (\<exists>tok sd b ps. phase p = Awaiting tok sd \<and> json_parse b = Some (JObj ps)
        \<and> storage (dash_step tz p e) = (storage p)(user_data \<mapsto> json_stringify (written_record tok sd ps)))"
proof (cases e)
  case (DomLoaded t)
  then show ?thesis by (auto simp: dash_load_def Let_def split: boot.split)
next
  case (FetchSettled out)
  then show ?thesis using dash_settle_storage [of out p] by auto
qed (auto simp: dash_tick_def dash_click_def dash_submit_def dash_timer_def Let_def split: option.split nat.split)

lemma login_step_storage:
  "lstorage (login_step p e) = lstorage p
   \<or> (\<exists>i out now b ps. e = LoginSettled i out now \<and> i < length (calls p) \<and> json_parse b = Some (JObj ps)
        \<and> lstorage (login_step p e) = (lstorage p)(user_data \<mapsto>
              json_stringify (written_record (JStr (fst (calls p ! i))) (JStr (today_str now)) ps))
        \<and> llocation (login_step p e) = Some ''/'')"
proof (cases e)
  case (LoginSettled i out now)
  show ?thesis
  proof (cases "i < length (calls p) \<and> \<not> snd (calls p ! i)")
    case True
    let ?q = "p\<lparr>calls := (calls p)[i := (fst (calls p ! i), True)]\<rparr>"
    from login_response_cases [of "fst (calls p ! i)" now out ?q] show ?thesis
    proof (elim disjE exE conjE)
      fix b ps
      assume "out = Body b" "json_parse b = Some (JObj ps)" "login_response (fst (calls p ! i)) now out ?q =
        ?q\<lparr>lstorage := (lstorage ?q)(user_data \<mapsto> json_stringify (written_record (JStr (fst (calls p ! i))) (JStr (today_str now)) ps)),
          llocation := Some ''/''\<rparr>"
      then show ?thesis using True LoginSettled
        by (intro disjI2 exI [of _ i] exI [of _ out] exI [of _ now] exI [of _ b] exI [of _ ps]) (simp add: login_settle_def)
    qed (use True LoginSettled in \<open>simp_all add: login_settle_def login_error_def\<close>)
  next
    case False
    then have "login_settle i out now p = p" by (auto simp: login_settle_def)
    with LoginSettled show ?thesis by simp
  qed
qed (simp_all add: login_toggle_def login_submit_def Let_def)

lemma written_record_session:
  assumes "json_parse b = Some (JObj ps)" "json_wf tok" "json_wf sd"
  shows "session_of (st(user_data \<mapsto> json_stringify (written_record tok sd ps)))
     = record_view (written_record tok sd ps)"
  using written_record_parse [OF assms] by (simp add: session_of_def)

lemma record_view_written:
  "record_view (written_record tok sd ps) =
     (case (tok, sd) of (JStr tk, JStr d) \<Rightarrow> Record tk d | _ \<Rightarrow> Unreadable)"
  by (simp add: record_view_def split: jval.split)

lemma login_response_calls: "calls (login_response tok now out p) = calls p"
  by (simp add: login_response_def login_error_def split: fetch_outcome.split option.split sum.split)

lemma login_step_calls:
  "map fst (calls (login_step p e)) = map fst (calls p)
   \<or> (\<exists>t. t \<noteq> [] \<and> js_trim t = t \<and> map fst (calls (login_step p e)) = map fst (calls p) @ [t])"
proof (cases e)
  case LoginSubmit
  then show ?thesis by (auto simp: login_submit_def Let_def js_trim_idem)
next
  case (LoginSettled i out now)
  then show ?thesis by (simp add: login_settle_def login_response_calls map_fst_mark)
qed (simp_all add: login_toggle_def)

lemma browser_store_load [simp]: "browser_store (browser_load path icons d b) = browser_store b"
  by (simp add: browser_load_def page_at_def dash_init_def login_init_def split: option.split)

lemma page_inv_load: "page_inv b \<Longrightarrow> page_inv (browser_load path icons d b)"
  by (simp add: browser_load_def page_at_def page_inv_def login_init_def awaiting_rec_def dash_init_def
      split: option.split)

lemma page_inv_step:
  assumes "page_inv b"
  shows "page_inv (browser_step tz b e)"
proof (cases "(tz, b, e)" rule: browser_step.cases)
  case (1 tz' p e')
  have P: "\<forall>t \<in> set (map fst (calls p)). t \<noteq> [] \<and> js_trim t = t" using assms 1 by (simp add: page_inv_def del: set_map)
  from login_step_calls [of p e'] have "\<forall>t \<in> set (map fst (calls (login_step p e'))). t \<noteq> [] \<and> js_trim t = t"
  proof (elim disjE exE conjE)
    assume "map fst (calls (login_step p e')) = map fst (calls p)"
    with P show ?thesis by (simp del: set_map)
  next
    fix t
    assume "t \<noteq> []" "js_trim t = t" "map fst (calls (login_step p e')) = map fst (calls p) @ [t]"
    with P show ?thesis by (simp del: set_map)
  qed
  with 1 show ?thesis by (simp add: page_inv_def del: set_map)
next
  case (2 tz' p e')
  then show ?thesis using assms awaiting_rec_step by (simp add: page_inv_def)
qed (use assms page_inv_load in \<open>auto split: option.split\<close>)

lemma browser_step_frame:
  assumes "k \<noteq> user_data"
  shows "browser_store (browser_step tz b e) k = browser_store b k"
proof (cases "(tz, b, e)" rule: browser_step.cases)
  case (1 tz' p e')
  then show ?thesis using login_step_storage [of p e'] assms by auto
next
  case (2 tz' p e')
  then show ?thesis using dash_step_storage [of tz p e'] assms by auto
qed (auto split: option.split)

lemma dash_store_ok_step:
  assumes "awaiting_rec p" "store_ok (storage p)"
  shows "store_ok (storage (dash_step tz p e))"
  using dash_step_storage [of tz p e]
proof (elim disjE exE conjE)
  fix tok sd b ps
  assume a: "phase p = Awaiting tok sd" "json_parse b = Some (JObj ps)"
    "storage (dash_step tz p e) = (storage p)(user_data \<mapsto> json_stringify (written_record tok sd ps))"
  from assms(1) a(1) obtain s ud where r: "storage p user_data = Some s" "json_parse s = Some ud"
    "field ud ''token'' = Some tok" "field ud ''saved_date'' = Some sd" by (auto simp: awaiting_rec_def)
  with assms(2) obtain tk t where "tok = JStr tk" "tk \<noteq> []" "js_trim tk = tk" "sd = JStr (today_str t)"
    by (auto simp: store_ok_def stored_session_ok_def)
  with a(2,3) show ?thesis by (simp add: store_ok_def login_valid_record_ok)
qed (use assms(2) in \<open>simp_all add: store_ok_def\<close>)

lemma login_store_ok_step:
  assumes "\<forall>t \<in> set (map fst (calls p)). t \<noteq> [] \<and> js_trim t = t" "store_ok (lstorage p)"
  shows "store_ok (lstorage (login_step p e))"
  using login_step_storage [of p e]
proof (elim disjE exE conjE)
  fix i out now b ps
  assume a: "i < length (calls p)" "json_parse b = Some (JObj ps)"
    "lstorage (login_step p e) = (lstorage p)(user_data \<mapsto>
       json_stringify (written_record (JStr (fst (calls p ! i))) (JStr (today_str now)) ps))"
  then have "fst (calls p ! i) \<in> set (map fst (calls p))" by simp
  with assms(1) a show ?thesis by (simp add: store_ok_def login_valid_record_ok)
qed (use assms(2) in simp)

lemma store_ok_step:
  assumes "page_inv b" "store_ok (browser_store b)"
  shows "store_ok (browser_store (browser_step tz b e))"
proof (cases "(tz, b, e)" rule: browser_step.cases)
  case (1 tz' p e')
  then show ?thesis using assms login_store_ok_step [of p e'] by (simp add: page_inv_def)
next
  case (2 tz' p e')
  then show ?thesis using assms dash_store_ok_step [of p tz e'] by (simp add: page_inv_def)
qed (use assms in \<open>auto split: option.split\<close>)

lemma browser_reach_inv:
  assumes "browser_reach tz ls b"
  shows "page_inv b \<and> (\<forall>k. k \<noteq> user_data \<longrightarrow> browser_store b k = ls k)
     \<and> (store_ok ls \<longrightarrow> store_ok (browser_store b))"
  using assms
proof (induction rule: browser_reach.induct)
  case (start path icons d b)
  then show ?case
    by (auto simp: page_at_def page_inv_def login_init_def awaiting_rec_def dash_init_def split: if_splits)
next
  case (step b e)
  then show ?case using page_inv_step store_ok_step browser_step_frame by metis
qed

lemma dash_step_session:
  assumes "awaiting_rec p"
  shows "session_of (storage (dash_step tz p e)) = session_of (storage p)
     \<or> (storage (dash_step tz p e) user_data = None \<and> location (dash_step tz p e) = Some ''/login'')"
  using dash_step_storage [of tz p e]
proof (elim disjE exE conjE)
  fix tok sd b ps
  assume a: "phase p = Awaiting tok sd" "json_parse b = Some (JObj ps)"
    "storage (dash_step tz p e) = (storage p)(user_data \<mapsto> json_stringify (written_record tok sd ps))"
  from assms a(1) obtain s ud where r: "storage p user_data = Some s" "json_parse s = Some ud"
    "field ud ''token'' = Some tok" "field ud ''saved_date'' = Some sd" by (auto simp: awaiting_rec_def)
  have "json_wf tok" "json_wf sd" using json_parse_wf [OF r(2)] r(3,4) by (auto intro: json_wf_field)
  then have "session_of (storage (dash_step tz p e)) = record_view (written_record tok sd ps)"
    using a(2,3) by (simp add: written_record_session)
  also have "\<dots> = session_of (storage p)" using r by (simp add: session_of_def record_view_def)
  finally show ?thesis by simp
qed simp_all

lemma login_step_session:
  "session_of (lstorage (login_step p e)) = session_of (lstorage p)
   \<or> (\<exists>i now. i < length (calls p) \<and> session_of (lstorage (login_step p e)) = Record (fst (calls p ! i)) (today_str now)
        \<and> llocation (login_step p e) = Some ''/'')"
  using login_step_storage [of p e]
proof (elim disjE exE conjE)
  fix i out now b ps
  assume "i < length (calls p)" "json_parse b = Some (JObj ps)"
    "lstorage (login_step p e) = (lstorage p)(user_data \<mapsto>
       json_stringify (written_record (JStr (fst (calls p ! i))) (JStr (today_str now)) ps))"
    "llocation (login_step p e) = Some ''/''"
  then show ?thesis by (simp add: written_record_session record_view_written) blast
qed simp

section \<open>Properties\<close>

text \<open>
  C13.  Across any sequence of page events and navigations between the login page
  and the dashboard, the store changes only in \<open>user_data\<close>; and when the browser
  starts with no session record, or with one the login page could have written,
  \<open>user_data\<close> always holds no record or a record with a non-empty trimmed token
  and a \<open>toISOString\<close> date.
\<close>

theorem browser_store_ok:
  assumes "browser_reach tz ls b" "store_ok ls"
  shows "store_ok (browser_store b) \<and> (\<forall>k. k \<noteq> user_data \<longrightarrow> browser_store b k = ls k)"
  using browser_reach_inv [OF assms(1)] assms(2) by blast

text \<open>
  C14.  Every step of the browser follows the lifecycle of the specification's
  SessionRecord: the record (its token and date) stays as it was, which covers
  the dashboard's refresh in place; or it is destroyed and the page goes to
  \<open>/login\<close>; or the login page creates it, with a token the user submitted and
  the date of the answer, and goes to \<open>/\<close>.
\<close>

theorem browser_lifecycle:
  assumes "browser_reach tz ls b"
  shows "session_of (browser_store (browser_step tz b e)) = session_of (browser_store b)
     \<or> (browser_store (browser_step tz b e) user_data = None
         \<and> browser_location (browser_step tz b e) = Some ''/login'')
     \<or> (\<exists>p tk now. b = AtLogin p \<and> tk \<in> set (map fst (calls p)) \<and> tk \<noteq> [] \<and> js_trim tk = tk
         \<and> session_of (browser_store (browser_step tz b e)) = Record tk (today_str now)
         \<and> browser_location (browser_step tz b e) = Some ''/'')"
proof -
  have inv: "page_inv b" using browser_reach_inv [OF assms] by blast
  show ?thesis
  proof (cases "(tz, b, e)" rule: browser_step.cases)
    case (1 tz' p e')
    have P: "\<forall>t \<in> set (map fst (calls p)). t \<noteq> [] \<and> js_trim t = t"
      using inv 1 by (simp add: page_inv_def del: set_map)
    from login_step_session [of p e'] show ?thesis
    proof (elim disjE exE conjE)
      fix i now
      assume a: "i < length (calls p)" "session_of (lstorage (login_step p e')) = Record (fst (calls p ! i)) (today_str now)"
        "llocation (login_step p e') = Some ''/''"
      then have "fst (calls p ! i) \<in> set (map fst (calls p))" by simp
      with P a 1 show ?thesis by (intro disjI2) (auto simp del: set_map)
    qed (use 1 in simp)
  next
    case (2 tz' p e')
    with inv dash_step_session [of p tz e'] show ?thesis by (simp add: page_inv_def)
  qed (auto split: option.split)
qed

end
