(* ===== verification/Spec2Isabelle.thy ===== *)
theory Spec2Isabelle
  imports Session Login Picker Calendar Browser
begin

text \<open>
  \<^bold>\<open>A verification of the check-in dashboard scripts.\<close>

  The repository has three browser scripts.
  \<^item> src/static/script/loginScript.js is the login page.  It trims the token
    field and asks \<open>/api/token-status?token=\<close> about the token.  A valid answer
    is stored under the localStorage key \<open>user_data\<close>, with \<open>token\<close> and
    \<open>saved_date\<close> set on it.  The page then goes to \<open>/\<close>.
  \<^item> src/static/script/indexScript.js is the dashboard.  It draws the clock
    widgets and reads \<open>user_data\<close>.  A record without a truthy token, or not saved
    today, is discarded.  Otherwise it asks the same endpoint again.  A valid
    answer is written back and drives the shift widgets, the submit listener and
    the logout button.
  \<^item> src/app/static/script/dashboardScript.js is the date picker.  It navigates
    to \<open>/dashboard?date_str=\<close> followed by the picked date.
  The two pages share the session record in localStorage.  One page writes it
  and the other reads it.  The token travels in a query string.

  \<^bold>\<open>Theories.\<close>
  \<^item> \<open>Prelude\<close>: the store type, the fetch outcome, the token-status URL, and
    decimal digits (\<open>show_nat\<close> is \<open>String(n)\<close>).  Also \<open>trim\<close> and
    \<open>split(c)[0]\<close>, with their lemmas.
  \<^item> \<open>Json\<close>: JavaScript values (\<open>jval\<close>) and truthiness.
    \<^item> Property reads: \<open>get_prop\<close> throws on \<open>null\<close>.
    \<^item> Property assignment keeps the key order of ordinary objects
      (\<open>obj_set\<close>: array-index keys first, ascending).
    \<^item> \<open>JSON.stringify\<close> (\<open>json_stringify\<close>).
    \<^item> \<open>JSON.parse\<close> (\<open>json_parse\<close>): a recursive descent of six mutually
      recursive functions.  They run on fuel, with \<open>PFuel\<close> for fuel running
      out.
  \<^item> \<open>Json_Roundtrip\<close>: \<open>JSON.parse\<close> inverts \<open>JSON.stringify\<close> exactly on
    well-formed values (\<open>json_wf\<close>).  Everything \<open>JSON.parse\<close> returns is well
    formed.  The fuel \<open>2 * length s + 2\<close> that \<open>json_parse\<close> gives is always
    enough: the lemmas \<open>fuel_mono\<close>, \<open>consumes\<close> and \<open>enough_fuel\<close> show it.
    So \<open>json_parse\<close> is total, and \<open>None\<close> is exactly a \<open>SyntaxError\<close>.
  \<^item> \<open>Clock\<close>: the parts of \<open>Date\<close> the scripts use.
    \<^item> Time values are \<open>int\<close> milliseconds.
    \<^item> \<open>toISOString\<close> uses the era algorithm \<open>civil_from_days\<close>.
    \<^item> The local getters add a constant time-zone offset \<open>tz\<close>.
  \<^item> \<open>Calendar\<close>: the correctness of \<open>civil_from_days\<close>.  It agrees with
    ECMAScript's \<open>MakeDay\<close> (\<open>days_from_civil\<close>, from \<open>DayFromYear\<close> and
    the month offsets): it returns exactly the valid date with that day number
    (\<open>civil_from_days_iff\<close>).  The proof splits the 400-year era into
    centuries, four-year cycles and years (\<open>doe_decomp\<close>), and shows that
    \<open>DayFromYear\<close> grows by the year length (\<open>day_from_year_step\<close>).
    It also holds the claim on the UTC session date.
  \<^item> \<open>Widgets\<close>: \<open>displayGreeting\<close>, \<open>displayDayWeek\<close>, \<open>displayHour\<close>,
    \<open>displayMonth\<close> and \<open>displayTodayDate\<close> (indexScript.js lines 1 to 25).
  \<^item> \<open>Stored_Record\<close>: the session record written by both pages
    (\<open>written_record\<close>).  Its stored text parses back to it.
  \<^item> \<open>Session\<close>: the dashboard page (indexScript.js lines 29 to 140).
    \<^item> Its state is the record \<open>dash_page\<close>: the store, the location, the
      requests issued, the widget text \<open>dash_dom\<close>, the pending request
      \<open>phase\<close>, the installed handlers, and the scheduled and performed form
      posts.
    \<^item> The handlers are \<open>dash_load\<close> (DOMContentLoaded, through the decision
      \<open>boot_check\<close>), \<open>dash_settle\<close> and \<open>dash_valid\<close> (the fetch callbacks),
      \<open>dash_tick\<close>, \<open>dash_click\<close>, \<open>dash_submit\<close> and \<open>dash_timer\<close>.
    \<^item> \<open>dash_step\<close> dispatches the \<open>dash_event\<close>s.  \<open>dash_reach\<close> holds the
      pages reachable from a fresh one.
    \<^item> \<open>spec_bootstrap\<close> is section 4.1 of the specification as an abstract
      decision.  \<open>boot_check_refines\<close> shows that the code refines it.
  \<^item> \<open>Login\<close>: the login page.
    \<^item> \<open>login_toggle\<close>, \<open>login_submit\<close> and \<open>login_response\<close> are the
      handlers.  \<open>login_settle\<close> delivers the answer to one call in flight.
    \<^item> Answers may arrive in any order.  \<open>login_reach\<close> holds the reachable
      pages.
  \<^item> \<open>Picker\<close>: the date picker and its input value.  Also how the server
    reads a query string (\<open>query_param\<close>, from section 6 of the
    specification; the server is not in the repository).
  \<^item> \<open>Browser\<close>: the two pages in one browser, sharing \<open>localStorage\<close>.
    \<open>browser_step\<close> runs an event of the page shown (\<open>login_step\<close> or
    \<open>dash_step\<close>), follows the location a page set (\<open>Follow\<close>), or opens \<open>/\<close> or
    \<open>/login\<close> directly (\<open>Visit\<close>); \<open>browser_reach\<close> holds the reachable states.
    \<open>session_of\<close> reads the store as the specification's SessionRecord.
  \<^item> This theory holds the properties that span the pages:
    \<open>login_then_dashboard\<close>, and \<open>session_date_valid\<close> (the session
    date is a date string the picker accepts).  It also holds the fixtures, and a witness for
    every claim with a hypothesis.

  \<^bold>\<open>Correspondence.\<close>
  Every handler is one definition.  Its guards and early returns are the
  branches of the definition, in the order of the code.
  \<^item> A JavaScript exception is a value.  An uncaught one leaves the state as
    the handler had changed it up to the throw (\<open>BootCrash\<close>).  One caught by
    \<open>.catch\<close> becomes the catch handler's effect (\<open>dash_fail\<close>,
    \<open>login_error\<close>).
  \<^item> Asynchrony is the explicit events \<open>FetchSettled\<close>, \<open>LoginSettled\<close>,
    \<open>SubmitTimer\<close> and \<open>Tick\<close>.  A callback runs to completion within its event.
  \<^item> Setting \<open>window.location.href\<close> is recorded in \<open>location\<close>.  It does
    not stop the script.
  \<^item> Strings are lists of 8-bit characters.  So \<open>trim\<close> knows the
    Latin-1 white space only.

  \<^bold>\<open>What the lemmas show.\<close>
  \<^item> The session checks on load, for a stale, tokenless, absent, corrupt or
    fresh record.
  \<^item> The handling of every kind of answer: valid, invalid, failed, or without
    a name.
  \<^item> The write-back round trip.  At most one request is issued per load.  The
    store only ever holds the initial value, nothing, or a well-formed record.
  \<^item> On the login page: the empty-token refusal, the stored record, the
    invariant of the store, and the out-of-order overwrite.
  \<^item> Across both pages and any navigation between them: only \<open>user_data\<close>
    changes, it keeps the shape the login page gives it, and every step is a
    step of the specification's lifecycle (kept or refreshed in place, destroyed
    with a redirect to \<open>/login\<close>, or created by the login page).
  \<^item> The picker's URL, and how the server reads a query.  A token containing
    \<open>&\<close> is cut there.
  \<^item> The clock's bounds and formats.  The session date is the UTC date: it
    is the local date exactly when the UTC and local day numbers agree
    (\<open>today_str_utc\<close>, which needs the printed ISO date to be injective).
    For the years 1 to 9999 it is a valid \<open>YYYY-MM-DD\<close> date string.
  \<^item> The calendar conversion of \<open>toISOString\<close> and the local getters is the
    inverse of \<open>MakeDay\<close> on valid dates, for every day number.

  \<^bold>\<open>Bounds and fuel.\<close>
  The only fuel is the parser's, and \<open>enough_fuel\<close> shows that it never runs
  out.  Calendar arithmetic is on unbounded \<open>int\<close>.  This is exact for the time
  values of a running clock: JavaScript numbers hold integers below
  \<open>2^53\<close> exactly, and the model treats no time value outside the
  \<open>\<plusminus>8.64e15\<close> range of \<open>Date\<close>.

  \<^bold>\<open>Not modelled.\<close>
  \<^item> The server: the token-status endpoint and the form post it receives.
    Only how it reads a query string is modelled.
  \<^item> The DOM beyond the elements the scripts write.
  \<^item> The \<open>confetti\<close> library, assumed present; its call only draws.
  \<^item> \<open>console\<close> output.
  \<^item> \<open>toLocaleString\<close> in other locales.  The model uses English names.
  \<^item> Daylight-saving changes of the offset during a session.
  \<^item> Several tabs at once, and the server-rendered pages other than \<open>/\<close> and
    \<open>/login\<close> (the dashboard of dashboardScript.js is reached through
    \<open>/dashboard?date_str=\<close>, which the browser model does not load).
  \<^item> Percent-decoding of queries.
\<close>

section \<open>Fixtures\<close>

text \<open>A dashboard page whose server-rendered elements are all empty.\<close>

definition blank_dom :: dash_dom where
  "blank_dom =
     \<lparr>greeting = [], day_week = [], current_time = [], month_text = [], date_month = [],
      vdash_value = [], vdash_span = [], vdash_color = [], button_text = [], button_bg = [],
      shift_label = [], shift_time = [], label_active = [], dot_active = False,
      banner_text = [], banner_show = False\<rparr>"

text \<open>A dashboard waiting for the answer about token \<open>abc\<close> saved on 2024-03-05.\<close>

definition waiting_page :: dash_page where
  "waiting_page =
     (dash_init [user_data \<mapsto> ''{\"token\":\"abc\",\"saved_date\":\"2024-03-05\"}''] blank_dom)
       \<lparr>phase := Awaiting (JStr ''abc'') (JStr ''2024-03-05'')\<rparr>"

text \<open>The dashboard after DOMContentLoaded over a record saved on 2024-03-05.\<close>

definition loaded_page :: dash_page where
  "loaded_page =
     dash_step 0 (dash_init [user_data \<mapsto> ''{\"token\":\"abc\",\"saved_date\":\"2024-03-05\"}''] blank_dom)
       (DomLoaded 1709596800000)"

text \<open>A login page after DOMContentLoaded whose token field holds \<open>v\<close>.\<close>

definition login_ready :: "string \<Rightarrow> login_page" where
  "login_ready v = (login_init Map.empty [True, False])\<lparr>lready := True, token_input := v\<rparr>"

text \<open>A login page with the request about \<open>abc\<close> in flight.\<close>

definition login_waiting :: login_page where
  "login_waiting = login_submit (login_ready ''  abc '')"

section \<open>Properties spanning the two pages\<close>

text \<open>
  C7.  A session record the login page stores after a valid answer is what the
  dashboard expects: loaded on the same UTC day (the same day number of the time
  value, whatever the time zone), the dashboard asks about exactly
  the token the user entered and waits for the answer; loaded on another day, it
  removes the record and sends the browser back to the login page.
\<close>

theorem login_then_dashboard:
  assumes "i < length (calls p)" "calls p ! i = (tok, False)" "json_parse b = Some data"
    "truthy_opt (field data ''valid'')" "tok \<noteq> []"
  shows "dash_load tz t (dash_init (lstorage (login_settle i (Body b) now p)) d)
     = (if t div ms_per_day = now div ms_per_day
        then (dash_init (lstorage (login_settle i (Body b) now p)) d)\<lparr>dom := render_clock tz t d,
               clock_timer := True, requests := [token_status_url tok], phase := Awaiting (JStr tok) (JStr (today_str t))\<rparr>
        else (dash_init ((lstorage p)(user_data := None)) d)\<lparr>dom := render_clock tz t d, clock_timer := True,
               location := Some ''/login'', phase := Idle\<rparr>)"
proof -
  from assms(4) obtain ps where data: "data = JObj ps" using truthy_field_JObj by blast
  let ?w = "written_record (JStr tok) (JStr (today_str now)) ps"
  have st: "lstorage (login_settle i (Body b) now p) = (lstorage p)(user_data \<mapsto> json_stringify ?w)"
    using assms data by (intro login_settle_valid) simp_all
  have rt: "json_parse (json_stringify ?w) = Some ?w"
    using assms(3) data by (intro written_record_parse) simp_all
  show ?thesis
  proof (cases "today_str t = today_str now")
    case True
    then have "t div ms_per_day = now div ms_per_day" by (simp add: today_str_day)
    have "boot_check (today_str t) (Some (json_stringify ?w))
        = Validate (token_status_url tok) (JStr tok) (JStr (today_str t))"
      using boot_check_validate [OF rt, of "JStr tok" "today_str t"] True assms(5)
      by (simp add: written_record_def)
    with True st \<open>t div ms_per_day = now div ms_per_day\<close> show ?thesis by (simp add: dash_load_def dash_init_def)
  next
    case False
    then have "t div ms_per_day \<noteq> now div ms_per_day" by (simp add: today_str_day)
    have "boot_check (today_str t) (Some (json_stringify ?w)) = StaleSession"
      using boot_check_stale [OF rt, of "today_str t"] False assms(5)
      by (simp add: written_record_def)
    with False st \<open>t div ms_per_day \<noteq> now div ms_per_day\<close> show ?thesis by (simp add: dash_load_def dash_init_def)
  qed
qed

section \<open>The session date and the date picker\<close>

lemma iso_date_valid:
  assumes "day_from_year 1 * ms_per_day \<le> t" "t < day_from_year 10000 * ms_per_day"
  shows "valid_date_string (iso_date t)"
proof -
  obtain y m d where c: "civil_from_days (t div ms_per_day) = (y, m, d)" by (cases "civil_from_days (t div ms_per_day)") auto
  have v: "1 \<le> m" "m \<le> 12" "1 \<le> d" "d \<le> days_in_month y m"
    using civil_from_days_inverse [of "t div ms_per_day"] c by simp_all
  have "day_from_year 1 \<le> t div ms_per_day" "t div ms_per_day < day_from_year 10000"
    using div_range [OF _ assms] by (simp_all add: ms_per_day_def)
  then have yr: "1 \<le> y" "y \<le> 9999" using civil_year_range [OF c] by simp_all
  have dm: "days_in_month y m \<le> 31" by (simp add: days_in_month_def)
  define Y where "Y = pad_nat 4 (nat y)"
  define M where "M = pad_nat 2 (nat m)"
  define D where "D = pad_nat 2 (nat d)"
  have l: "length Y = 4" "length M = 2" "length D = 2"
    using yr v dm unfolding Y_def M_def D_def by (simp_all add: pad_nat_length nat_less_iff)
  have i: "iso_date t = Y @ CHR ''-'' # M @ CHR ''-'' # D"
    using c yr unfolding iso_date_def iso_year_def Y_def M_def D_def by simp
  have parts: "take 4 (iso_date t) = Y" "take 2 (drop 5 (iso_date t)) = M" "drop 8 (iso_date t) = D"
    "iso_date t ! 4 = CHR ''-''" "iso_date t ! 7 = CHR ''-''" "length (iso_date t) = 10"
    unfolding i using l by (simp_all add: nth_append)
  have r: "read_nat Y = nat y" "read_nat M = nat m" "read_nat D = nat d" unfolding Y_def M_def D_def by simp_all
  have dig: "\<forall>c \<in> set (Y @ M @ D). is_digit c" unfolding Y_def M_def D_def using pad_nat_digits by auto
  show ?thesis unfolding valid_date_string_def parts r using dig yr v by (simp add: nat_le_iff le_nat_iff)
qed

text \<open>
  C34.  For every time value from 0001-01-01 to the end of 9999 (UTC), the
  session date both scripts stamp and check, \<open>toISOString().split('T')[0]\<close>,
  is a valid date string of the HTML date input: four digits, a month
  \<open>01..12\<close>, a day of that month, so the picker of dashboardScript.js keeps it
  as its value unchanged.
\<close>

theorem session_date_valid:
  assumes "day_from_year 1 * ms_per_day \<le> t" "t < day_from_year 10000 * ms_per_day"
  shows "valid_date_string (today_str t) \<and> date_input_value (today_str t) = today_str t"
  using iso_date_valid [OF assms] by (simp add: today_str_iso_date date_input_value_def)

section \<open>Facts about the fixtures\<close>

text \<open>Tuesday 2024-03-05 00:00:00 UTC, as a time value.\<close>

lemma today_2024_03_05: "today_str 1709596800000 = ''2024-03-05''"
  by code_simp

lemma parse_stale_record:
  "json_parse ''{\"token\":\"abc\",\"saved_date\":\"2024-03-04\"}''
     = Some (JObj [(''token'', JStr ''abc''), (''saved_date'', JStr ''2024-03-04'')])"
  by code_simp

lemma parse_tokenless_record:
  "json_parse ''{\"saved_date\":\"2024-03-05\"}'' = Some (JObj [(''saved_date'', JStr ''2024-03-05'')])"
  by code_simp

lemma parse_fresh_record:
  "json_parse ''{\"token\":\"abc\",\"saved_date\":\"2024-03-05\"}''
     = Some (JObj [(''token'', JStr ''abc''), (''saved_date'', JStr ''2024-03-05'')])"
  by code_simp

lemma parse_corrupt_record: "json_parse ''{'' = None"
  by code_simp

lemma parse_checked_in_body:
  "json_parse ''{\"valid\":true,\"full_name\":\"Ada Lovelace\",\"has_checked_in\":true,\"has_checked_out\":false}''
     = Some (JObj [(''valid'', JBool True), (''full_name'', JStr ''Ada Lovelace''),
                   (''has_checked_in'', JBool True), (''has_checked_out'', JBool False)])"
  by code_simp

lemma parse_invalid_body: "json_parse ''{\"valid\":false}'' = Some (JObj [(''valid'', JBool False)])"
  by code_simp

lemma parse_nameless_body: "json_parse ''{\"valid\":true}'' = Some (JObj [(''valid'', JBool True)])"
  by code_simp

lemma waiting_page_simps [simp]:
  "phase waiting_page = Awaiting (JStr ''abc'') (JStr ''2024-03-05'')"
  "logout_handler waiting_page = False"
  "location waiting_page = None"
  by (simp_all add: waiting_page_def dash_init_def)

lemma loaded_page_reach:
  "dash_reach 0 [user_data \<mapsto> ''{\"token\":\"abc\",\"saved_date\":\"2024-03-05\"}''] loaded_page"
  unfolding loaded_page_def by (intro dash_reach.step dash_reach.init)

lemma loaded_page_phase: "phase loaded_page = Awaiting (JStr ''abc'') (JStr ''2024-03-05'')"
  by (simp add: loaded_page_def dash_init_def dash_load_def Let_def boot_check_def parse_fresh_record
      today_2024_03_05)

lemma trim_abc: "js_trim ''  abc '' = ''abc''"
  by (simp add: js_trim_def js_ws_def)

lemma trim_blank: "js_trim ''   '' = []"
  by (simp add: js_trim_def js_ws_def)

lemma login_waiting_simps [simp]:
  "calls login_waiting = [(''abc'', False)]" "lstorage login_waiting = Map.empty"
  "llocation login_waiting = None" "alerts login_waiting = []"
  "lrequests login_waiting = [''/api/token-status?token=abc'']"
  by (simp_all add: login_waiting_def login_submit_def login_ready_def login_init_def trim_abc
      token_status_url_def Let_def)

lemma login_waiting_reach: "login_reach Map.empty login_waiting"
proof -
  have "login_reach Map.empty
      (login_step (login_step (login_step (login_init Map.empty [True, False]) LoginLoaded) (EditToken ''  abc ''))
         LoginSubmit)"
    by (intro login_reach.step login_reach.init)
  then show ?thesis by (simp add: login_waiting_def login_ready_def login_init_def)
qed

lemma browser_login_waiting_reach: "browser_reach tz Map.empty (AtLogin login_waiting)"
proof -
  have "browser_reach tz Map.empty
      (browser_step tz (browser_step tz (browser_step tz (AtLogin (login_init Map.empty [True, False]))
         (OnLogin LoginLoaded)) (OnLogin (EditToken ''  abc ''))) (OnLogin LoginSubmit))"
    by (intro browser_reach.step browser_reach.start [where path = "''/login''" and icons = "[True, False]"
          and d = blank_dom]) (simp add: page_at_def)
  then show ?thesis by (simp add: login_waiting_def login_ready_def login_init_def)
qed

section \<open>Witnesses of the dashboard claims\<close>

theorem dash_load_stale_session_witness:
  "storage (dash_load 0 1709596800000
       (dash_init [user_data \<mapsto> ''{\"token\":\"abc\",\"saved_date\":\"2024-03-04\"}''] blank_dom))
     user_data = None
   \<and> location (dash_load 0 1709596800000
       (dash_init [user_data \<mapsto> ''{\"token\":\"abc\",\"saved_date\":\"2024-03-04\"}''] blank_dom))
     = Some ''/login''"
  using Session.dash_load_stale_session
      [of "dash_init [user_data \<mapsto> ''{\"token\":\"abc\",\"saved_date\":\"2024-03-04\"}''] blank_dom"
          _ _ 1709596800000 0]
    parse_stale_record today_2024_03_05
  by (simp add: dash_init_def)

theorem dash_load_missing_token_witness:
  "storage (dash_load 0 1709596800000
       (dash_init [user_data \<mapsto> ''{\"saved_date\":\"2024-03-05\"}''] blank_dom)) user_data = None
   \<and> location (dash_load 0 1709596800000
       (dash_init [user_data \<mapsto> ''{\"saved_date\":\"2024-03-05\"}''] blank_dom)) = Some ''/login''"
  using Session.dash_load_missing_token
      [of "dash_init [user_data \<mapsto> ''{\"saved_date\":\"2024-03-05\"}''] blank_dom" _ _ 0 1709596800000]
    parse_tokenless_record
  by (simp add: dash_init_def)

theorem dash_load_fresh_session_witness:
  "requests (dash_load 0 1709596800000
       (dash_init [user_data \<mapsto> ''{\"token\":\"abc\",\"saved_date\":\"2024-03-05\"}''] blank_dom))
     = [''/api/token-status?token=abc'']"
  using Session.dash_load_fresh_session
      [of "dash_init [user_data \<mapsto> ''{\"token\":\"abc\",\"saved_date\":\"2024-03-05\"}''] blank_dom"
          _ _ "JStr ''abc''" 1709596800000 0]
    parse_fresh_record today_2024_03_05
  by (simp add: dash_init_def token_status_url_def)

theorem dash_settle_status_table_witness:
  "button_text (dom (dash_settle
      (Body ''{\"valid\":true,\"full_name\":\"Ada Lovelace\",\"has_checked_in\":true,\"has_checked_out\":false}'')
      waiting_page)) = ''Check Out''"
  using Session.dash_settle_status_table [of waiting_page "JStr ''abc''" "JStr ''2024-03-05''"
      "''{\"valid\":true,\"full_name\":\"Ada Lovelace\",\"has_checked_in\":true,\"has_checked_out\":false}''"
      "[(''valid'', JBool True), (''full_name'', JStr ''Ada Lovelace''),
        (''has_checked_in'', JBool True), (''has_checked_out'', JBool False)]"
      "''Ada Lovelace''" True False]
    parse_checked_in_body
  by simp


theorem dash_load_no_session_witness:
  "location (dash_load 0 1709596800000 (dash_init Map.empty blank_dom)) = Some ''/login''"
  using Session.dash_load_no_session [of "dash_init Map.empty blank_dom" 0 1709596800000]
  by (simp add: dash_init_def)

theorem dash_settle_network_error_witness:
  "storage (dash_settle NetworkError waiting_page) user_data
     = Some ''{\"token\":\"abc\",\"saved_date\":\"2024-03-05\"}''
   \<and> location (dash_settle NetworkError waiting_page) = Some ''/login''"
  using Session.dash_settle_network_error [of waiting_page]
  by (simp add: waiting_page_def dash_init_def)

theorem dash_settle_invalid_witness:
  "location (dash_settle (Body ''{\"valid\":false}'') waiting_page) = None
   \<and> storage (dash_settle (Body ''{\"valid\":false}'') waiting_page) user_data
     = Some ''{\"token\":\"abc\",\"saved_date\":\"2024-03-05\"}''"
  using Session.dash_settle_invalid [of waiting_page _ _ "''{\"valid\":false}''"] parse_invalid_body
  by (simp add: waiting_page_def dash_init_def)

theorem dash_settle_name_crash_witness:
  "location (dash_settle (Body ''{\"valid\":true}'') waiting_page) = Some ''/login''
   \<and> storage (dash_settle (Body ''{\"valid\":true}'') waiting_page) user_data
     = Some (json_stringify (written_record (JStr ''abc'') (JStr ''2024-03-05'') [(''valid'', JBool True)]))"
  using Session.dash_settle_name_crash [of waiting_page _ _ "''{\"valid\":true}''" "[(''valid'', JBool True)]"]
    parse_nameless_body
  by simp


theorem dash_click_logout_witness:
  "location (dash_click (waiting_page\<lparr>logout_handler := True\<rparr>)) = Some ''/login''
   \<and> storage (dash_click (waiting_page\<lparr>logout_handler := True\<rparr>)) user_data = None"
  using Session.dash_click_logout [of "waiting_page\<lparr>logout_handler := True\<rparr>"]
  by simp

theorem dash_submit_then_post_witness:
  "form_posts (dash_run 0 (waiting_page\<lparr>submit_handler := Some CheckedIn\<rparr>) [ClickButton, SubmitTimer]) = 1"
  using Session.dash_submit_then_post [of "waiting_page\<lparr>submit_handler := Some CheckedIn\<rparr>" CheckedIn 0]
  by (simp add: waiting_page_def dash_init_def)

theorem dash_double_submit_witness:
  "form_posts (dash_run 0 (waiting_page\<lparr>submit_handler := Some NotCheckedIn\<rparr>)
      [ClickButton, ClickButton, SubmitTimer, SubmitTimer]) = 2"
  using Session.dash_double_submit [of "waiting_page\<lparr>submit_handler := Some NotCheckedIn\<rparr>" NotCheckedIn 0]
  by (simp add: waiting_page_def dash_init_def)


theorem dash_settle_writeback_witness:
  "\<exists>w. storage (dash_settle (Body ''{\"valid\":true}'') loaded_page) user_data = Some (json_stringify w)
     \<and> json_parse (json_stringify w) = Some w
     \<and> field w ''token'' = Some (JStr ''abc'') \<and> field w ''saved_date'' = Some (JStr ''2024-03-05'')
     \<and> (\<forall>k. k \<noteq> ''token'' \<longrightarrow> k \<noteq> ''saved_date'' \<longrightarrow> field w k = field (JObj [(''valid'', JBool True)]) k)
     \<and> boot_check ''2024-03-05'' (Some (json_stringify w))
         = Validate (token_status_url (js_string (JStr ''abc''))) (JStr ''abc'') (JStr ''2024-03-05'')"
  using Session.dash_settle_writeback [OF loaded_page_reach loaded_page_phase parse_nameless_body]
  by simp


section \<open>Witnesses of the browser claims\<close>

theorem browser_store_ok_witness:
  "browser_reach 0 Map.empty (AtLogin login_waiting) \<and> store_ok Map.empty
   \<and> store_ok (browser_store (AtLogin login_waiting))"
  using Browser.browser_store_ok [of 0 Map.empty "AtLogin login_waiting"] browser_login_waiting_reach [of 0]
  by (simp add: store_ok_def)

theorem browser_lifecycle_witness:
  "browser_reach 0 Map.empty (AtLogin login_waiting)
   \<and> (session_of (browser_store (browser_step 0 (AtLogin login_waiting)
          (OnLogin (LoginSettled 0 (Body ''{\"valid\":true}'') 1709596800000))))
        = session_of (browser_store (AtLogin login_waiting))
      \<or> (browser_store (browser_step 0 (AtLogin login_waiting)
          (OnLogin (LoginSettled 0 (Body ''{\"valid\":true}'') 1709596800000))) user_data = None
         \<and> browser_location (browser_step 0 (AtLogin login_waiting)
          (OnLogin (LoginSettled 0 (Body ''{\"valid\":true}'') 1709596800000))) = Some ''/login'')
      \<or> (\<exists>p tk now. AtLogin login_waiting = AtLogin p \<and> tk \<in> set (map fst (calls p)) \<and> tk \<noteq> []
          \<and> js_trim tk = tk
          \<and> session_of (browser_store (browser_step 0 (AtLogin login_waiting)
               (OnLogin (LoginSettled 0 (Body ''{\"valid\":true}'') 1709596800000)))) = Record tk (today_str now)
          \<and> browser_location (browser_step 0 (AtLogin login_waiting)
               (OnLogin (LoginSettled 0 (Body ''{\"valid\":true}'') 1709596800000))) = Some ''/''))"
  using Browser.browser_lifecycle [of 0 Map.empty "AtLogin login_waiting"
      "OnLogin (LoginSettled 0 (Body ''{\"valid\":true}'') 1709596800000)"]
    browser_login_waiting_reach [of 0]
  by blast

section \<open>Witnesses of the JSON claims\<close>




section \<open>Witnesses of the login and cross-page claims\<close>

theorem login_submit_empty_witness:
  "login_submit (login_ready ''   '')
     = (login_ready ''   '')\<lparr>alerts := [''Please enter your personal token!'']\<rparr>"
  using Login.login_submit_empty [of "login_ready ''   ''"] trim_blank
  by (simp add: login_ready_def login_init_def)

theorem login_submit_request_witness:
  "lrequests (login_submit (login_ready ''  abc '')) = [''/api/token-status?token=abc'']"
  using Login.login_submit_request [of "login_ready ''  abc ''"] trim_abc
  by (simp add: login_ready_def login_init_def)

theorem login_settle_valid_store_witness:
  "\<exists>w. lstorage (login_settle 0 (Body ''{\"valid\":true}'') 1709596800000 login_waiting) user_data
       = Some (json_stringify w)
     \<and> json_parse (json_stringify w) = Some w
     \<and> field w ''token'' = Some (JStr ''abc'') \<and> field w ''saved_date'' = Some (JStr ''2024-03-05'')
     \<and> (\<forall>k. k \<noteq> ''token'' \<longrightarrow> k \<noteq> ''saved_date'' \<longrightarrow> field w k = field (JObj [(''valid'', JBool True)]) k)
     \<and> llocation (login_settle 0 (Body ''{\"valid\":true}'') 1709596800000 login_waiting) = Some ''/''"
  using Login.login_settle_valid_store [of 0 login_waiting "''abc''" "''{\"valid\":true}''"
      "JObj [(''valid'', JBool True)]" 1709596800000] parse_nameless_body today_2024_03_05
  by simp

theorem login_settle_bad_token_witness:
  "lstorage (login_settle 0 (Body ''{\"valid\":false}'') 1709596800000 login_waiting) = Map.empty
   \<and> alerts (login_settle 0 (Body ''{\"valid\":false}'') 1709596800000 login_waiting) = [''Bad token! Try again.'']"
  using Login.login_settle_bad_token [of 0 login_waiting "''abc''" "''{\"valid\":false}''"
      "JObj [(''valid'', JBool False)]" 1709596800000] parse_invalid_body
  by simp

theorem login_settle_network_error_witness:
  "lstorage (login_settle 0 NetworkError 1709596800000 login_waiting) = Map.empty
   \<and> alerts (login_settle 0 NetworkError 1709596800000 login_waiting)
       = [''An error occurred. Please try again later.'']"
  using Login.login_settle_network_error [of 0 login_waiting "''abc''" 1709596800000]
  by simp

theorem login_reach_store_witness:
  "lstorage login_waiting ''theme'' = None
   \<and> (\<exists>tok. tok \<noteq> [] \<and> js_trim tok = tok \<and> ''/api/token-status?token=abc'' = token_status_url tok)"
  using Login.login_reach_store [OF login_waiting_reach]
  by simp

theorem login_out_of_order_witness:
  "lstorage (login_settle 0 (Body ''{\"valid\":true}'') 1709596800000
      (login_settle 1 (Body ''{\"valid\":true}'') 1709596800000
        (login_waiting\<lparr>calls := [(''abc'', False), (''xyz'', False)]\<rparr>))) user_data
   = Some (json_stringify (written_record (JStr ''abc'') (JStr ''2024-03-05'') [(''valid'', JBool True)]))"
  using Login.login_out_of_order [of "login_waiting\<lparr>calls := [(''abc'', False), (''xyz'', False)]\<rparr>"
      "''abc''" "''xyz''" "''{\"valid\":true}''" "[(''valid'', JBool True)]" 1709596800000 1709596800000]
    parse_nameless_body today_2024_03_05
  by simp

theorem login_then_dashboard_witness:
  "requests (dash_load 0 1709596800000
      (dash_init (lstorage (login_settle 0 (Body ''{\"valid\":true}'') 1709596800000 login_waiting)) blank_dom))
   = [''/api/token-status?token=abc'']"
  using login_then_dashboard [of 0 login_waiting "''abc''" "''{\"valid\":true}''" "JObj [(''valid'', JBool True)]"
      0 1709596800000 1709596800000 blank_dom] parse_nameless_body
  by (simp add: token_status_url_def)


section \<open>Witnesses of the date picker and query claims\<close>

theorem picker_change_navigates_witness:
  "plocation (picker_step \<lparr>plocation = None, pready = True, picker_value = []\<rparr> (PickDate ''2024-03-05''))
     = Some ''/dashboard?date_str=2024-03-05''
   \<and> query_param ''date_str'' ''/dashboard?date_str=2024-03-05'' = Some ''2024-03-05''"
  using Picker.picker_change_navigates [of "\<lparr>plocation = None, pready = True, picker_value = []\<rparr>" "''2024-03-05''"]
  by (simp add: valid_date_string_def is_digit_def read_nat_def digit_val_def days_in_month_def leap_year_def)



theorem token_query_ampersand_witness: "query_param ''token'' (token_status_url ''ab&c=1'') = Some ''ab''"
  using Picker.token_query_ampersand [of "''ab''" "''c=1''"] by simp


section \<open>Witnesses of the clock claims\<close>

theorem session_date_valid_witness:
  "day_from_year 1 * ms_per_day \<le> 1709593200000 \<and> 1709593200000 < day_from_year 10000 * ms_per_day
   \<and> valid_date_string (today_str 1709593200000)
   \<and> date_input_value (today_str 1709593200000) = today_str 1709593200000"
  using session_date_valid [of 1709593200000] by (simp add: day_from_year_def ms_per_day_def)

theorem two_digits_pad_witness: "two_digits 7 = pad_nat 2 7"
  using Widgets.two_digits_pad [of 7] by simp


section \<open>Witnesses of the refinement and store claims\<close>

theorem boot_check_refines_witness:
  "boot_action (boot_check ''2024-03-05'' (Some ''{\"token\":\"abc\",\"saved_date\":\"2024-03-05\"}''))
     = Some (spec_bootstrap ''2024-03-05'' (Some (Some (JStr ''abc''), Some (JStr ''2024-03-05''))))"
  using Session.boot_check_refines [of "Some ''{\"token\":\"abc\",\"saved_date\":\"2024-03-05\"}''"
      "Some (Some (JStr ''abc''), Some (JStr ''2024-03-05''))" "''2024-03-05''"] parse_fresh_record
  by (simp add: abs_store_def)

theorem dash_reach_store_witness:
  "storage loaded_page ''theme'' = None
   \<and> (storage loaded_page user_data = Some ''{\"token\":\"abc\",\"saved_date\":\"2024-03-05\"}''
      \<or> storage loaded_page user_data = None
      \<or> (\<exists>w. storage loaded_page user_data = Some (json_stringify w)
             \<and> json_parse (json_stringify w) = Some w \<and> (\<exists>ps. w = JObj ps)))"
  using Session.dash_reach_store [OF loaded_page_reach]
  by simp

end
